theory Spec2Isabelle
  imports Complex_Main
begin

section \<open>The Kathpalia Memory Relation script, embedded over the reals\<close>

text \<open>
  The script \<^verbatim>\<open>kmr_memory_simulation.py\<close> computes with IEEE double-precision numbers.
  This first embedding idealises every floating-point number as the real number it
  approximates: a decimal literal denotes its decimal value, \<^verbatim>\<open>np.pi\<close> is \<open>pi\<close>, and
  \<^verbatim>\<open>x ** (1/3)\<close> is \<open>x powr (1/3)\<close>. Rounding, overflow and underflow are outside it; the
  algebraic properties of the strain are stated of it. A second embedding, in binary64
  arithmetic, follows for the property that the range of the format decides.

  A division whose denominator is zero does not produce a number: on Python floats it
  raises \<^verbatim>\<open>ZeroDivisionError\<close>, on NumPy scalars it yields \<^verbatim>\<open>inf\<close> or \<^verbatim>\<open>nan\<close> with a warning.
  Both are the error value \<open>ZeroDivisionError\<close> here. A negative base under the fractional
  exponent \<^verbatim>\<open>1/3\<close> gives a complex number (Python float) or \<^verbatim>\<open>nan\<close> (NumPy scalar); that is
  the error value \<open>NonRealPower\<close>.
\<close>

datatype error = ZeroDivisionError | NonRealPower | EmptySequence

definition bind_err :: "error + 'a \<Rightarrow> ('a \<Rightarrow> error + 'b) \<Rightarrow> error + 'b" where
  "bind_err r f = (case r of Inl e \<Rightarrow> Inl e | Inr x \<Rightarrow> f x)"

definition py_div :: "real \<Rightarrow> real \<Rightarrow> error + real" where
  \<comment> \<open>\<^verbatim>\<open>a / b\<close>\<close>
  "py_div a b = (if b = 0 then Inl ZeroDivisionError else Inr (a / b))"

definition py_pow_third :: "real \<Rightarrow> error + real" where
  \<comment> \<open>\<^verbatim>\<open>x ** (1/3)\<close>: zero stays zero, a negative base leaves the reals\<close>
  "py_pow_third x = (if x < 0 then Inl NonRealPower else Inr (x powr (1 / 3)))"

definition py_pow_neg1 :: "real \<Rightarrow> error + real" where
  \<comment> \<open>\<^verbatim>\<open>x ** -1\<close>: zero cannot be raised to a negative power\<close>
  "py_pow_neg1 x = (if x = 0 then Inl ZeroDivisionError else Inr (1 / x))"

subsection \<open>Physical constants in CGS units\<close>

definition G :: real where
  \<comment> \<open>\<^verbatim>\<open>G = 6.6743e-8\<close>\<close>
  "G = 66743 / 10 ^ 12"

definition c :: real where
  \<comment> \<open>\<^verbatim>\<open>c = 2.9979e10\<close>\<close>
  "c = 29979 * 10 ^ 6"

subsection \<open>The strain model\<close>

text \<open>
  \<^verbatim>\<open>
  def KMR_strain(M_pbh, M_star, R_star, deltaM, epsilon, D, v_ej):
      Rt = R_star * (M_pbh / M_star)**(1/3)
      Rg = 2 * G * M_pbh / c**2
      strain = 1e40 * (8 * epsilon / (3 * np.pi)) * (deltaM / M_pbh) * \
               (Rt / Rg)**-1 * (v_ej / c)**2 * (G / (c**4)) * (M_pbh / D)
      return strain
  \<close>
  Every division and every power is a step that can fail, in the order in which Python
  evaluates them.
\<close>

definition KMR_strain ::
  "real \<Rightarrow> real \<Rightarrow> real \<Rightarrow> real \<Rightarrow> real \<Rightarrow> real \<Rightarrow> real \<Rightarrow> error + real" where
  "KMR_strain M_pbh M_star R_star deltaM epsilon D v_ej =
     bind_err (py_div M_pbh M_star) (\<lambda>q.
     bind_err (py_pow_third q) (\<lambda>p.
     let Rt = R_star * p in
     bind_err (py_div (2 * G * M_pbh) (c ^ 2)) (\<lambda>Rg.
     bind_err (py_div (8 * epsilon) (3 * pi)) (\<lambda>a.
     bind_err (py_div deltaM M_pbh) (\<lambda>b.
     bind_err (py_div Rt Rg) (\<lambda>r.
     bind_err (py_pow_neg1 r) (\<lambda>ri.
     bind_err (py_div v_ej c) (\<lambda>v.
     bind_err (py_div G (c ^ 4)) (\<lambda>g.
     bind_err (py_div M_pbh D) (\<lambda>md.
     Inr (10 ^ 40 * a * b * ri * v ^ 2 * g * md)))))))))))"

section \<open>The strain model in binary64 arithmetic\<close>

text \<open>
  Which inputs reach a division by zero is decided by the range of the floating-point
  format, which the exact reals above do not have: a positive quotient below the smallest
  binary64 number is \<^verbatim>\<open>0.0\<close> in the program. This second embedding of \<^verbatim>\<open>KMR_strain\<close> follows
  the program in IEEE 754 binary64 arithmetic, for arguments that are Python floats.
  (On NumPy scalars, as in the sweep, the arithmetic is the same but nothing raises: a
  zero denominator, an overflowing power and a negative base under \<^verbatim>\<open>1/3\<close> give an
  infinity or NaN with a warning. The two agree wherever a call on floats returns a
  float.)

  A finite float is the real number it denotes; the two zeros are not told apart (they
  compare equal, and the program never divides by either without raising). \<open>b64\<close> rounds
  a real to the nearest float, ties to the even significand: the significand has 53 bits,
  the exponent of a normal number is at least \<open>-1022\<close>, and below that the spacing stays
  \<open>2 powr (-1074)\<close>. Rounding is done as if the exponent had no upper bound; a result of
  magnitude \<open>2 ^ 1024\<close> or more is an overflow.
\<close>

definition rne :: "real \<Rightarrow> int" where
  \<comment> \<open>round to the nearest integer, ties to even\<close>
  "rne r = (let f = \<lfloor>r\<rfloor>; d = r - of_int f in
            if d < 1 / 2 then f else if 1 / 2 < d then f + 1 else if even f then f else f + 1)"

definition b64_exp :: "real \<Rightarrow> int" where
  "b64_exp x = max (- 1022) \<lfloor>log 2 \<bar>x\<bar>\<rfloor>"

definition b64_ulp :: "real \<Rightarrow> real" where
  \<comment> \<open>the spacing of the floats around \<open>x\<close>\<close>
  "b64_ulp x = 2 powr (of_int (b64_exp x) - 52)"

definition b64 :: "real \<Rightarrow> real" where
  "b64 x = (if x = 0 then 0 else of_int (rne (x / b64_ulp x)) * b64_ulp x)"

definition b64_overflow :: real where
  "b64_overflow = 2 ^ 1024"

text \<open>
  A float value is a finite number, an infinity or a NaN. \<open>fl\<close> is the result of an
  arithmetic operation whose exact result is \<open>x\<close>.
\<close>

datatype fp = Num real | PInf | NInf | NaN

definition fl :: "real \<Rightarrow> fp" where
  "fl x = (if \<bar>b64 x\<bar> < b64_overflow then Num (b64 x) else if 0 < x then PInf else NInf)"

text \<open>
  \<^verbatim>\<open>a * b\<close> on floats never raises: an overflow gives an infinity, zero times an infinity
  gives NaN.
\<close>

fun fp_mul :: "fp \<Rightarrow> fp \<Rightarrow> fp" where
  "fp_mul NaN b = NaN"
| "fp_mul a NaN = NaN"
| "fp_mul (Num x) (Num y) = fl (x * y)"
| "fp_mul (Num x) PInf = (if x = 0 then NaN else if 0 < x then PInf else NInf)"
| "fp_mul (Num x) NInf = (if x = 0 then NaN else if 0 < x then NInf else PInf)"
| "fp_mul PInf (Num y) = (if y = 0 then NaN else if 0 < y then PInf else NInf)"
| "fp_mul NInf (Num y) = (if y = 0 then NaN else if 0 < y then NInf else PInf)"
| "fp_mul PInf PInf = PInf"
| "fp_mul PInf NInf = NInf"
| "fp_mul NInf PInf = NInf"
| "fp_mul NInf NInf = PInf"

text \<open>The quotient of two floats whose divisor is not zero.\<close>

fun fp_div :: "fp \<Rightarrow> fp \<Rightarrow> fp" where
  "fp_div NaN b = NaN"
| "fp_div a NaN = NaN"
| "fp_div (Num x) (Num y) = fl (x / y)"
| "fp_div (Num x) PInf = Num 0"
| "fp_div (Num x) NInf = Num 0"
| "fp_div PInf (Num y) = (if 0 < y then PInf else NInf)"
| "fp_div NInf (Num y) = (if 0 < y then NInf else PInf)"
| "fp_div PInf PInf = NaN"
| "fp_div PInf NInf = NaN"
| "fp_div NInf PInf = NaN"
| "fp_div NInf NInf = NaN"

text \<open>
  A step of the program returns a float, raises one of two exceptions, or (a negative
  number under the exponent \<^verbatim>\<open>1/3\<close>) returns a complex number. After that the program
  goes on in complex arithmetic, which this embedding does not follow: \<open>Went_complex\<close> is
  the end of the modelled computation and not an error of the program.
\<close>

datatype py_exception = ZeroDivision_Error | Overflow_Error

datatype 'a outcome = Ok 'a | Raised py_exception | Went_complex

definition bind_outcome :: "'a outcome \<Rightarrow> ('a \<Rightarrow> 'b outcome) \<Rightarrow> 'b outcome" where
  "bind_outcome r f =
     (case r of Ok x \<Rightarrow> f x | Raised e \<Rightarrow> Raised e | Went_complex \<Rightarrow> Went_complex)"

definition py_div_b64 :: "fp \<Rightarrow> fp \<Rightarrow> fp outcome" where
  \<comment> \<open>\<^verbatim>\<open>a / b\<close> on Python floats: a zero divisor raises, whatever the dividend\<close>
  "py_div_b64 a b = (if b = Num 0 then Raised ZeroDivision_Error else Ok (fp_div a b))"

definition is_integer :: "real \<Rightarrow> bool" where
  "is_integer w \<longleftrightarrow> w = of_int \<lfloor>w\<rfloor>"

definition odd_integer :: "real \<Rightarrow> bool" where
  "odd_integer w \<longleftrightarrow> is_integer w \<and> odd \<lfloor>w\<rfloor>"

text \<open>
  \<^verbatim>\<open>v ** w\<close> on a Python float \<open>v\<close> and a finite exponent \<open>w\<close>. The interpreter settles
  the special cases itself, in this order: exponent zero; a NaN or infinite base; a zero
  base (an error for a negative exponent); a negative base (complex for an exponent that
  is not an integer, otherwise the sign is set aside); a base of magnitude one. Every
  other case goes to the C library's \<^verbatim>\<open>pow\<close>, and an infinite result there is reported
  as \<^verbatim>\<open>OverflowError\<close>. The C library is not among the sources and its \<^verbatim>\<open>pow\<close> is not
  required to round correctly, so it is the parameter \<open>pw\<close>, applied to a positive base.
\<close>

definition py_pow_b64 :: "(real \<Rightarrow> real \<Rightarrow> fp) \<Rightarrow> fp \<Rightarrow> real \<Rightarrow> fp outcome" where
  "py_pow_b64 pw v w =
     (if w = 0 then Ok (Num 1)
      else case v of
        NaN \<Rightarrow> Ok NaN
      | PInf \<Rightarrow> Ok (if 0 < w then PInf else Num 0)
      | NInf \<Rightarrow> Ok (if 0 < w then (if odd_integer w then NInf else PInf) else Num 0)
      | Num x \<Rightarrow>
          if x = 0 then (if w < 0 then Raised ZeroDivision_Error else Ok (Num 0))
          else if x < 0 \<and> \<not> is_integer w then Went_complex
          else if \<bar>x\<bar> = 1 then Ok (Num (if x < 0 \<and> odd_integer w then - 1 else 1))
          else (case pw \<bar>x\<bar> w of
                  Num r \<Rightarrow> Ok (Num (if x < 0 \<and> odd_integer w then - r else r))
                | NaN \<Rightarrow> Ok NaN
                | PInf \<Rightarrow> Raised Overflow_Error
                | NInf \<Rightarrow> Raised Overflow_Error))"

definition pow_rounded :: "real \<Rightarrow> real \<Rightarrow> fp" where
  \<comment> \<open>a \<^verbatim>\<open>pow\<close> that rounds correctly\<close>
  "pow_rounded x w = fl (x powr w)"

text \<open>The constants of the module and of the function body, as the floats they are.\<close>

definition G_b64 :: real where
  "G_b64 = b64 G"

definition c_b64 :: real where
  "c_b64 = b64 c"

definition pi_b64 :: real where
  \<comment> \<open>\<^verbatim>\<open>np.pi\<close>\<close>
  "pi_b64 = b64 pi"

definition third_b64 :: real where
  \<comment> \<open>\<^verbatim>\<open>1/3\<close>, the quotient of two integers\<close>
  "third_b64 = b64 (1 / 3)"

text \<open>
  The body of \<^verbatim>\<open>KMR_strain\<close>, operation by operation and in the order of evaluation:
  the two operands of a product or quotient from left to right, then the operation. Only
  the divisions and the powers can end the computation; the products between them cannot.
  The arguments are the values of finite floats.
\<close>

definition KMR_strain_b64 ::
  "(real \<Rightarrow> real \<Rightarrow> fp) \<Rightarrow> real \<Rightarrow> real \<Rightarrow> real \<Rightarrow> real \<Rightarrow> real \<Rightarrow> real \<Rightarrow> real \<Rightarrow> fp outcome" where
  "KMR_strain_b64 pw M_pbh M_star R_star deltaM epsilon D v_ej =
     bind_outcome (py_div_b64 (Num M_pbh) (Num M_star)) (\<lambda>q.
     bind_outcome (py_pow_b64 pw q third_b64) (\<lambda>p.
     let Rt = fp_mul (Num R_star) p in
     bind_outcome (py_pow_b64 pw (Num c_b64) 2) (\<lambda>c2.
     bind_outcome (py_div_b64 (fp_mul (fp_mul (Num 2) (Num G_b64)) (Num M_pbh)) c2) (\<lambda>Rg.
     bind_outcome
       (py_div_b64 (fp_mul (Num 8) (Num epsilon)) (fp_mul (Num 3) (Num pi_b64))) (\<lambda>a.
     let t1 = fp_mul (fl (10 ^ 40)) a in
     bind_outcome (py_div_b64 (Num deltaM) (Num M_pbh)) (\<lambda>b.
     let t2 = fp_mul t1 b in
     bind_outcome (py_div_b64 Rt Rg) (\<lambda>r.
     bind_outcome (py_pow_b64 pw r (- 1)) (\<lambda>ri.
     let t3 = fp_mul t2 ri in
     bind_outcome (py_div_b64 (Num v_ej) (Num c_b64)) (\<lambda>vc.
     bind_outcome (py_pow_b64 pw vc 2) (\<lambda>v2.
     let t4 = fp_mul t3 v2 in
     bind_outcome (py_pow_b64 pw (Num c_b64) 4) (\<lambda>c4.
     bind_outcome (py_div_b64 (Num G_b64) c4) (\<lambda>g.
     let t5 = fp_mul t4 g in
     bind_outcome (py_div_b64 (Num M_pbh) (Num D)) (\<lambda>md.
     Ok (fp_mul t5 md))))))))))))))"

section \<open>The module's parameters, the grid and the sweep\<close>

subsection \<open>Astrophysical and model parameters\<close>

definition Msun :: real where
  \<comment> \<open>\<^verbatim>\<open>Msun = 2.0e33\<close>\<close>
  "Msun = 2 * 10 ^ 33"

definition Rsun :: real where
  \<comment> \<open>\<^verbatim>\<open>Rsun = 7.0e10\<close>\<close>
  "Rsun = 7 * 10 ^ 10"

definition M_star :: real where
  "M_star = Msun"

definition R_star :: real where
  "R_star = Rsun"

definition epsilon :: real where
  \<comment> \<open>\<^verbatim>\<open>epsilon = 0.02\<close>\<close>
  "epsilon = 2 / 100"

definition deltaM :: real where
  \<comment> \<open>\<^verbatim>\<open>deltaM = 0.001 * Msun\<close>\<close>
  "deltaM = 1 / 1000 * Msun"

definition D :: real where
  \<comment> \<open>\<^verbatim>\<open>D = 3.1e26\<close>\<close>
  "D = 31 * 10 ^ 25"

definition v_ej :: real where
  \<comment> \<open>\<^verbatim>\<open>v_ej = 0.1 * c\<close>\<close>
  "v_ej = 1 / 10 * c"

text \<open>The same parameters as floats: each literal and each product is rounded.\<close>

definition Msun_b64 :: real where
  "Msun_b64 = b64 Msun"

definition Rsun_b64 :: real where
  "Rsun_b64 = b64 Rsun"

definition M_star_b64 :: real where
  "M_star_b64 = Msun_b64"

definition R_star_b64 :: real where
  "R_star_b64 = Rsun_b64"

definition epsilon_b64 :: real where
  "epsilon_b64 = b64 epsilon"

definition deltaM_b64 :: real where
  "deltaM_b64 = b64 (b64 (1 / 1000) * Msun_b64)"

definition D_b64 :: real where
  "D_b64 = b64 D"

definition v_ej_b64 :: real where
  "v_ej_b64 = b64 (b64 (1 / 10) * c_b64)"

subsection \<open>The mass grid\<close>

text \<open>
  Modelled from the spec: \<^verbatim>\<open>np.linspace\<close>, on which \<^verbatim>\<open>np.logspace\<close> rests, belongs to NumPy
  and is not among the sources. NumPy documents \<^verbatim>\<open>linspace(start, stop, num)\<close> as the \<open>num\<close>
  evenly spaced values \<open>start + i * (stop - start) / (num - 1)\<close>, the last one being \<open>stop\<close>
  itself; with \<open>num = 1\<close> the only value is \<open>start\<close>.
\<close>

definition linspace :: "real \<Rightarrow> real \<Rightarrow> nat \<Rightarrow> real list" where
  "linspace start stop num =
     map (\<lambda>i. if num = 1 then start
               else if i = num - 1 then stop
               else start + real i * ((stop - start) / real (num - 1))) [0..<num]"

text \<open>
  Modelled from the spec: \<^verbatim>\<open>np.logspace\<close> belongs to NumPy and is not among the sources.
  The specification asks for base-10 logarithmically spaced values, inclusive of both
  endpoints; NumPy documents \<^verbatim>\<open>logspace(start, stop, num)\<close> as \<open>10\<close> raised to the values of
  \<^verbatim>\<open>linspace(start, stop, num)\<close>.
\<close>

definition logspace :: "real \<Rightarrow> real \<Rightarrow> nat \<Rightarrow> real list" where
  "logspace start stop num = map (\<lambda>y. 10 powr y) (linspace start stop num)"

definition M_pbh :: "real list" where
  \<comment> \<open>\<^verbatim>\<open>M_pbh = np.logspace(20, 25, 200)\<close>\<close>
  "M_pbh = logspace 20 25 200"

subsection \<open>The sweep and the diagnostic report\<close>

text \<open>
  A list comprehension calls its body once per element, in order, and the first failing
  call ends the whole comprehension.
\<close>

fun comprehension :: "('a \<Rightarrow> error + 'b) \<Rightarrow> 'a list \<Rightarrow> error + 'b list" where
  "comprehension f [] = Inr []"
| "comprehension f (x # xs) =
     bind_err (f x) (\<lambda>y. bind_err (comprehension f xs) (\<lambda>ys. Inr (y # ys)))"

definition strains :: "error + real list" where
  \<comment> \<open>\<^verbatim>\<open>strains = np.array([KMR_strain(m, M_star, R_star, deltaM, epsilon, D, v_ej) for m in M_pbh])\<close>\<close>
  "strains = comprehension (\<lambda>m. KMR_strain m M_star R_star deltaM epsilon D v_ej) M_pbh"

text \<open>
  Modelled from the spec: \<^verbatim>\<open>np.min\<close> and \<^verbatim>\<open>np.max\<close> belong to NumPy and are not among the
  sources. The specification describes the pair (min, max) as a straightforward reduction
  over the sequence; NumPy refuses an empty array.
\<close>

definition np_min :: "real list \<Rightarrow> error + real" where
  "np_min xs = (case xs of [] \<Rightarrow> Inl EmptySequence | x # ys \<Rightarrow> Inr (fold min ys x))"

definition np_max :: "real list \<Rightarrow> error + real" where
  "np_max xs = (case xs of [] \<Rightarrow> Inl EmptySequence | x # ys \<Rightarrow> Inr (fold max ys x))"

definition report :: "error + real \<times> real" where
  \<comment> \<open>the pair printed by \<^verbatim>\<open>print(f"... {np.min(strains):.3e} - {np.max(strains):.3e}")\<close>\<close>
  "report =
     bind_err strains (\<lambda>ss.
     bind_err (np_min ss) (\<lambda>lo.
     bind_err (np_max ss) (\<lambda>hi. Inr (lo, hi))))"

subsection \<open>Notions used to state the properties\<close>

text \<open>
  The factor of the strain that does not depend on the black-hole mass: the product of
  the source collects to \<open>strain_coeff\<close> times \<open>M_pbh powr (2/3)\<close> (lemma
  \<open>KMR_strain_coeff\<close> below).
\<close>

definition strain_coeff :: "real \<Rightarrow> real \<Rightarrow> real \<Rightarrow> real \<Rightarrow> real \<Rightarrow> real \<Rightarrow> real" where
  "strain_coeff ms rs dm e d v =
     10 ^ 40 * 16 * G ^ 2 * e * dm * v ^ 2 * ms powr (1 / 3) / (3 * pi * rs * d * c ^ 8)"

text \<open>
  The two shapes the specification allows for the strain sequence. A sequence is
  monotonic when it never decreases or never increases. It has a single interior maximum
  when some position that is neither the first nor the last splits it into a strictly
  increasing part up to that position and a strictly decreasing part from it.
\<close>

definition monotonic :: "real list \<Rightarrow> bool" where
  "monotonic xs \<longleftrightarrow> sorted_wrt (\<le>) xs \<or> sorted_wrt (\<ge>) xs"

definition single_interior_maximum :: "real list \<Rightarrow> bool" where
  "single_interior_maximum xs \<longleftrightarrow>
     list_ex (\<lambda>k. sorted_wrt (<) (take (Suc k) xs) \<and> sorted_wrt (>) (drop k xs))
       [1..<length xs - 1]"

text \<open>
  Ranges of floats are stated in powers of ten. A \<^verbatim>\<open>pow\<close> is accurate enough for what
  follows when, on a positive base and wherever the exact power lies between \<open>10\<close> to the
  \<open>-300\<close> and \<open>10\<close> to the \<open>300\<close>, it returns a finite number within a factor two of the
  exact power. A value is within the decades \<open>k\<close> and \<open>j\<close> when it is a finite number
  between \<open>10\<close> to the \<open>k\<close> and \<open>10\<close> to the \<open>j\<close>.
\<close>

definition p10 :: "int \<Rightarrow> real" where
  "p10 k = 10 powi k"

definition pow_within_factor_two :: "(real \<Rightarrow> real \<Rightarrow> fp) \<Rightarrow> bool" where
  "pow_within_factor_two pw \<longleftrightarrow>
     (\<forall>x w. 0 < x \<longrightarrow> p10 (- 300) \<le> x powr w \<longrightarrow> x powr w \<le> p10 300 \<longrightarrow>
        (\<exists>r. pw x w = Num r \<and> x powr w / 2 \<le> r \<and> r \<le> 2 * x powr w))"

definition in_decades :: "int \<Rightarrow> int \<Rightarrow> fp \<Rightarrow> bool" where
  "in_decades k j v \<longleftrightarrow> (\<exists>z. v = Num z \<and> p10 k \<le> z \<and> z \<le> p10 j)"

section \<open>Basic facts about the model\<close>

lemma c_pos: "0 < c"
  by (simp add: c_def)

lemma G_pos: "0 < G"
  by (simp add: G_def)

lemma bind_err_Inr: "bind_err (Inr x) f = f x"
  by (simp add: bind_err_def)

lemma bind_err_Inl: "bind_err (Inl e) f = Inl e"
  by (simp add: bind_err_def)

lemma py_div_Inr: "b \<noteq> 0 \<Longrightarrow> py_div a b = Inr (a / b)"
  by (simp add: py_div_def)

lemma py_div_zero: "py_div a 0 = Inl ZeroDivisionError"
  by (simp add: py_div_def)

lemma py_pow_third_Inr: "0 \<le> x \<Longrightarrow> py_pow_third x = Inr (x powr (1 / 3))"
  by (simp add: py_pow_third_def)

lemma py_pow_neg1_Inr: "x \<noteq> 0 \<Longrightarrow> py_pow_neg1 x = Inr (1 / x)"
  by (simp add: py_pow_neg1_def)

text \<open>
  With a positive black-hole mass, a positive stellar mass and a nonzero stellar radius
  and distance, every step of \<open>KMR_strain\<close> succeeds and the result is the product of the
  factors as the source writes them.
\<close>

lemma KMR_strain_value:
  assumes "0 < m" "0 < ms" "rs \<noteq> 0" "d \<noteq> 0"
  shows "KMR_strain m ms rs dm e d v =
    Inr (10 ^ 40 * (8 * e / (3 * pi)) * (dm / m)
         * (1 / (rs * (m / ms) powr (1 / 3) / (2 * G * m / c ^ 2)))
         * (v / c) ^ 2 * (G / c ^ 4) * (m / d))"
proof -
  have q: "0 \<le> m / ms" using assms by simp
  have p: "(m / ms) powr (1 / 3) \<noteq> 0" using assms by simp
  have rg: "2 * G * m / c ^ 2 \<noteq> 0" using assms G_pos c_pos by simp
  have r: "rs * (m / ms) powr (1 / 3) / (2 * G * m / c ^ 2) \<noteq> 0"
    using p rg assms by simp
  have k: "ms \<noteq> 0" "c ^ 2 \<noteq> 0" "3 * pi \<noteq> 0" "m \<noteq> 0" "c \<noteq> 0" "c ^ 4 \<noteq> 0"
    using assms c_pos by simp_all
  show ?thesis
    unfolding KMR_strain_def Let_def
    by (simp only: py_div_Inr py_pow_third_Inr py_pow_neg1_Inr bind_err_Inr q rg r k assms simp_thms)
qed

text \<open>The same value with the mass dependence collected: the strain is a multiple of \<open>m powr (2/3)\<close>.\<close>

lemma KMR_strain_closed:
  assumes "0 < m" "0 < ms" "rs \<noteq> 0" "d \<noteq> 0"
  shows "KMR_strain m ms rs dm e d v =
    Inr (10 ^ 40 * 16 * G ^ 2 * e * dm * v ^ 2 * ms powr (1 / 3) * m powr (2 / 3)
         / (3 * pi * rs * d * c ^ 8))"
proof -
  have a: "(m / ms) powr (1 / 3) = m powr (1 / 3) / ms powr (1 / 3)"
    by (simp add: powr_divide)
  have "m powr 1 / m powr (1 / 3) = m powr (1 - 1 / 3)"
    by (simp only: powr_diff)
  then have b: "m / m powr (1 / 3) = m powr (2 / 3)"
    using assms by simp
  have mp: "m powr (1 / 3) \<noteq> 0" "ms powr (1 / 3) \<noteq> 0"
    using assms by simp_all
  have "10 ^ 40 * (8 * e / (3 * pi)) * (dm / m)
         * (1 / (rs * (m / ms) powr (1 / 3) / (2 * G * m / c ^ 2)))
         * (v / c) ^ 2 * (G / c ^ 4) * (m / d)
     = 10 ^ 40 * 16 * G ^ 2 * e * dm * v ^ 2 * ms powr (1 / 3) * (m / m powr (1 / 3))
         / (3 * pi * rs * d * c ^ 8)"
    unfolding a using assms mp c_pos G_pos
    by (simp add: field_simps power2_eq_square power4_eq_xxxx power_numeral_reduce)
  then show ?thesis
    unfolding KMR_strain_value [OF assms] b by simp
qed

subsection \<open>The grid, the comprehension and the reductions\<close>

lemma length_linspace: "length (linspace a b n) = n"
  by (simp add: linspace_def)

lemma linspace_nth:
  "i < n \<Longrightarrow> linspace a b n ! i =
     (if n = 1 then a else if i = n - 1 then b else a + real i * ((b - a) / real (n - 1)))"
  by (simp add: linspace_def)

lemma linspace_strict:
  assumes "a < b"
  shows "sorted_wrt (<) (linspace a b n)"
proof -
  have "linspace a b n ! i < linspace a b n ! j" if "i < j" "j < n" for i j
  proof -
    have n: "1 < n" "i < n - 1" "0 < real (n - 1)" using that by simp_all
    have i: "linspace a b n ! i = a + real i * ((b - a) / real (n - 1))"
      using that n by (simp add: linspace_nth)
    have ilt: "real i * ((b - a) / real (n - 1)) < b - a"
    proof -
      have "real i < real (n - 1)" using n by simp
      then have "real i * (b - a) < real (n - 1) * (b - a)" using assms by simp
      then show ?thesis using n(3) by (simp add: field_simps)
    qed
    show ?thesis
    proof (cases "j = n - 1")
      case True
      then have "linspace a b n ! j = b" using that n by (simp add: linspace_nth)
      then show ?thesis using i ilt by simp
    next
      case False
      then have j: "linspace a b n ! j = a + real j * ((b - a) / real (n - 1))"
        using that n by (simp add: linspace_nth)
      have "0 < (b - a) / real (n - 1)" using assms n(3) by simp
      moreover have "real i < real j" using that by simp
      ultimately have "real i * ((b - a) / real (n - 1)) < real j * ((b - a) / real (n - 1))"
        by (rule mult_strict_right_mono [rotated])
      then show ?thesis using i j by simp
    qed
  qed
  then show ?thesis
    by (simp add: sorted_wrt_iff_nth_less length_linspace)
qed

lemma length_logspace: "length (logspace a b n) = n"
  by (simp add: logspace_def length_linspace)

lemma logspace_strict:
  assumes "a < b"
  shows "sorted_wrt (<) (logspace a b n)"
proof -
  have "sorted_wrt (\<lambda>x y. (10::real) powr x < 10 powr y) (linspace a b n)"
    using linspace_strict [OF assms] by simp
  then show ?thesis by (simp add: logspace_def sorted_wrt_map)
qed

lemma logspace_pos: "x \<in> set (logspace a b n) \<Longrightarrow> 0 < x"
  by (auto simp: logspace_def)

lemma logspace_hd: "1 < n \<Longrightarrow> hd (logspace a b n) = 10 powr a"
  by (simp add: hd_conv_nth length_logspace logspace_def linspace_nth length_linspace flip: length_0_conv)

lemma logspace_last: "1 < n \<Longrightarrow> last (logspace a b n) = 10 powr b"
  by (simp add: last_conv_nth length_logspace logspace_def linspace_nth length_linspace flip: length_0_conv)

lemma comprehension_map:
  "(\<And>x. x \<in> set xs \<Longrightarrow> f x = Inr (g x)) \<Longrightarrow> comprehension f xs = Inr (map g xs)"
  by (induction xs) (simp_all add: bind_err_Inr)

lemma fold_min_sorted: "sorted (x # ys) \<Longrightarrow> fold min ys x = (x::real)"
  by (induction ys) (auto simp: min_def)

lemma fold_max_sorted: "sorted (x # ys) \<Longrightarrow> fold max ys x = last ((x::real) # ys)"
  by (induction ys arbitrary: x) (auto simp: max_def)

subsection \<open>The mass dependence and the default parameters\<close>

lemma KMR_strain_coeff:
  assumes "0 < m" "0 < ms" "rs \<noteq> 0" "d \<noteq> 0"
  shows "KMR_strain m ms rs dm e d v = Inr (strain_coeff ms rs dm e d v * m powr (2 / 3))"
  unfolding KMR_strain_closed [OF assms] strain_coeff_def by simp

lemma strain_coeff_pos:
  assumes "0 < ms" "0 < rs" "0 < dm" "0 < e" "0 < d" "0 < v"
  shows "0 < strain_coeff ms rs dm e d v"
  unfolding strain_coeff_def using assms G_pos c_pos by simp

lemma defaults_pos:
  "0 < M_star" "0 < R_star" "0 < deltaM" "0 < epsilon" "0 < D" "0 < v_ej"
  using c_pos
  by (simp_all add: M_star_def Msun_def R_star_def Rsun_def deltaM_def epsilon_def D_def v_ej_def)

lemma defaults_ok: "0 < M_star" "R_star \<noteq> 0" "D \<noteq> 0"
  using defaults_pos by simp_all

lemma M_pbh_length: "length M_pbh = 200"
  by (simp add: M_pbh_def length_logspace)

lemma M_pbh_pos: "x \<in> set M_pbh \<Longrightarrow> 0 < x"
  unfolding M_pbh_def by (rule logspace_pos)

lemma M_pbh_strict: "sorted_wrt (<) M_pbh"
  unfolding M_pbh_def by (rule logspace_strict) simp

lemma strain_mono:
  assumes "0 < (k::real)" "0 < x" "x < y"
  shows "k * x powr (2 / 3) < k * y powr (2 / 3)"
proof -
  have "x powr (2 / 3) < y powr (2 / 3)"
    using assms by (simp add: powr_less_mono2)
  then show ?thesis
    using assms(1) by simp
qed

lemma strains_eq:
  "strains = Inr (map (\<lambda>m. strain_coeff M_star R_star deltaM epsilon D v_ej * m powr (2 / 3)) M_pbh)"
  unfolding strains_def
  by (rule comprehension_map) (simp add: KMR_strain_coeff defaults_ok M_pbh_pos)

lemma strains_strict:
  "sorted_wrt (<) (map (\<lambda>m. strain_coeff M_star R_star deltaM epsilon D v_ej * m powr (2 / 3)) M_pbh)"
proof -
  have k: "0 < strain_coeff M_star R_star deltaM epsilon D v_ej"
    by (rule strain_coeff_pos) (rule defaults_pos)+
  have "sorted_wrt (\<lambda>x y. strain_coeff M_star R_star deltaM epsilon D v_ej * x powr (2 / 3)
                         < strain_coeff M_star R_star deltaM epsilon D v_ej * y powr (2 / 3)) M_pbh"
    using M_pbh_strict
    by (rule sorted_wrt_mono_rel [rotated]) (simp add: strain_mono [OF k] M_pbh_pos)
  then show ?thesis by (simp add: sorted_wrt_map)
qed

subsection \<open>Index alignment, extremal values and cube roots\<close>

lemma comprehension_nth:
  "comprehension f xs = Inr ys \<Longrightarrow>
     length ys = length xs \<and> (\<forall>i<length xs. f (xs ! i) = Inr (ys ! i))"
proof (induction xs arbitrary: ys)
  case Nil
  then show ?case by simp
next
  case (Cons x xs)
  from Cons.prems obtain y zs where y: "f x = Inr y" and zs: "comprehension f xs = Inr zs"
    and ys: "ys = y # zs"
    by (auto simp: bind_err_def split: sum.splits)
  from Cons.IH [OF zs] have "length zs = length xs" "\<forall>i<length xs. f (xs ! i) = Inr (zs ! i)"
    by simp_all
  then show ?case using y ys by (auto simp: nth_Cons split: nat.splits)
qed

lemma np_min_sorted: "xs \<noteq> [] \<Longrightarrow> sorted xs \<Longrightarrow> np_min xs = Inr (hd xs)"
  by (cases xs) (simp_all add: np_min_def fold_min_sorted del: sorted_wrt.simps)

lemma np_max_sorted: "xs \<noteq> [] \<Longrightarrow> sorted xs \<Longrightarrow> np_max xs = Inr (last xs)"
  by (cases xs) (simp_all add: np_max_def fold_max_sorted del: sorted_wrt.simps last.simps)

lemma strict_sorted_imp_sorted: "sorted_wrt (<) xs \<Longrightarrow> sorted (xs :: real list)"
  by (induction xs) (auto simp: less_imp_le)

lemma M_pbh_nonempty: "M_pbh \<noteq> []"
  using M_pbh_length by auto

lemma report_eq:
  "report = Inr (strain_coeff M_star R_star deltaM epsilon D v_ej * hd M_pbh powr (2 / 3),
                 strain_coeff M_star R_star deltaM epsilon D v_ej * last M_pbh powr (2 / 3))"
proof -
  let ?g = "\<lambda>m. strain_coeff M_star R_star deltaM epsilon D v_ej * m powr (2 / 3)"
  have ne: "map ?g M_pbh \<noteq> []" using M_pbh_nonempty by simp
  have so: "sorted (map ?g M_pbh)" using strains_strict by (rule strict_sorted_imp_sorted)
  show ?thesis
    unfolding report_def strains_eq bind_err_Inr np_min_sorted [OF ne so] np_max_sorted [OF ne so]
    using M_pbh_nonempty by (simp add: hd_map last_map)
qed


subsection \<open>The default values\<close>



subsection \<open>Numeric enclosures: \<open>pi\<close> by Machin's formula, the cube root of five\<close>









section \<open>Facts about binary64 arithmetic\<close>

subsection \<open>Rounding\<close>

lemma rne_close: "\<bar>of_int (rne r) - r\<bar> \<le> 1 / 2"
  unfolding rne_def Let_def by (auto simp: abs_le_iff)

lemma rne_zero: "0 \<le> r \<Longrightarrow> r \<le> 1 / 2 \<Longrightarrow> rne r = 0"
proof -
  assume r: "0 \<le> r" "r \<le> 1 / 2"
  then have f: "\<lfloor>r\<rfloor> = 0" by (simp add: floor_eq_iff)
  show ?thesis unfolding rne_def Let_def f using r by simp
qed

lemma rne_ge_one: "1 / 2 < r \<Longrightarrow> 1 \<le> rne r"
proof -
  assume r: "1 / 2 < r"
  have "\<bar>of_int (rne r) - r\<bar> \<le> 1 / 2" by (rule rne_close)
  then have "0 < (of_int (rne r) :: real)" using r by linarith
  then show ?thesis by simp
qed

lemma b64_ulp_pos: "0 < b64_ulp x"
  by (simp add: b64_ulp_def)

lemma b64_ulp_subnormal:
  assumes "0 < x" "x < 2 powr (- 1022)"
  shows "b64_ulp x = 2 powr (- 1074)"
proof -
  have "log 2 x < - 1022" using assms by (simp add: log_less_iff)
  then have "\<lfloor>log 2 \<bar>x\<bar>\<rfloor> < - 1022" using assms(1) by (simp add: floor_less_iff)
  then have "b64_exp x = - 1022" by (simp add: b64_exp_def)
  then show ?thesis by (simp add: b64_ulp_def)
qed

lemma b64_ulp_normal:
  assumes "2 powr (- 1022) \<le> x"
  shows "b64_ulp x * 2 ^ 52 \<le> x"
proof -
  have "(0::real) < 2 powr (- 1022)" by simp
  then have x: "0 < x" using assms by linarith
  have "- 1022 \<le> log 2 x" using assms x by (simp add: le_log_iff)
  then have "- 1022 \<le> \<lfloor>log 2 \<bar>x\<bar>\<rfloor>" using x by (simp add: le_floor_iff)
  then have e: "b64_exp x = \<lfloor>log 2 x\<rfloor>" using x by (simp add: b64_exp_def)
  have "of_int \<lfloor>log 2 x\<rfloor> \<le> log 2 x" by simp
  then have "2 powr of_int \<lfloor>log 2 x\<rfloor> \<le> x" using x by (simp add: powr_le_iff)
  moreover have "b64_ulp x * 2 ^ 52 = 2 powr of_int \<lfloor>log 2 x\<rfloor>"
    unfolding b64_ulp_def e by (simp add: powr_diff)
  ultimately show ?thesis by simp
qed

lemma b64_nonneg: "0 \<le> x \<Longrightarrow> 0 \<le> b64 x"
proof -
  assume x: "0 \<le> x"
  have "0 \<le> x / b64_ulp x" using x b64_ulp_pos [of x] by simp
  then have "- 1 / 2 \<le> (of_int (rne (x / b64_ulp x)) :: real)"
    using rne_close [of "x / b64_ulp x"] by linarith
  then have "0 \<le> rne (x / b64_ulp x)" by linarith
  then show ?thesis using b64_ulp_pos [of x] by (simp add: b64_def)
qed

lemma b64_upper: "0 \<le> x \<Longrightarrow> b64 x \<le> 2 * x"
proof (cases "x / b64_ulp x \<le> 1 / 2")
  case True
  assume "0 \<le> x"
  then have "rne (x / b64_ulp x) = 0" using True b64_ulp_pos [of x] by (intro rne_zero) simp_all
  then show ?thesis using \<open>0 \<le> x\<close> by (simp add: b64_def)
next
  case False
  assume x: "0 \<le> x"
  define u where "u = b64_ulp x"
  define r where "r = x / u"
  have u: "0 < u" unfolding u_def by (rule b64_ulp_pos)
  have ru: "r * u = x" unfolding r_def using u by simp
  have "of_int (rne r) \<le> r + 1 / 2" using rne_close [of r] by linarith
  also have "\<dots> \<le> 2 * r" using False unfolding r_def u_def by simp
  finally have "of_int (rne r) * u \<le> 2 * r * u"
    using u by (rule mult_right_mono [OF _ less_imp_le])
  also have "\<dots> = 2 * x" using ru by simp
  finally show ?thesis using x by (simp add: b64_def r_def u_def)
qed

lemma b64_ratio_gt_half:
  assumes "2 powr (- 1075) < x"
  shows "1 / 2 < x / b64_ulp x"
proof (cases "2 powr (- 1022) \<le> x")
  case True
  have "b64_ulp x \<le> b64_ulp x * 2 ^ 52" using b64_ulp_pos [of x] by simp
  also have "\<dots> \<le> x" using True by (rule b64_ulp_normal)
  finally show ?thesis using b64_ulp_pos [of x] by (simp add: field_simps)
next
  case False
  have "(0::real) < 2 powr (- 1075)" by simp
  then have x: "0 < x" using assms by linarith
  have u: "b64_ulp x = 2 powr (- 1074)" using x False by (intro b64_ulp_subnormal) simp_all
  have "(2::real) powr (- 1075) = 2 powr (- 1074) / 2"
    by (simp add: powr_diff [of 2 "- 1074" 1, simplified])
  then show ?thesis using assms unfolding u by (simp add: field_simps)
qed

lemma b64_lower:
  assumes "2 powr (- 1075) < x"
  shows "x / 2 \<le> b64 x"
proof -
  have "(0::real) < 2 powr (- 1075)" by simp
  then have x: "0 < x" using assms by linarith
  define u where "u = b64_ulp x"
  define r where "r = x / u"
  have u: "0 < u" unfolding u_def by (rule b64_ulp_pos)
  have ru: "r * u = x" unfolding r_def using u by simp
  have h: "1 / 2 < r" unfolding r_def u_def using assms by (rule b64_ratio_gt_half)
  have "r / 2 \<le> of_int (rne r)"
  proof (cases "1 \<le> r")
    case True
    then show ?thesis using rne_close [of r] by linarith
  next
    case False
    have "1 \<le> rne r" using h by (rule rne_ge_one)
    then have "(1::real) \<le> of_int (rne r)" by simp
    then show ?thesis using False by linarith
  qed
  then have "r / 2 * u \<le> of_int (rne r) * u"
    using u by (rule mult_right_mono [OF _ less_imp_le])
  moreover have "r / 2 * u = x / 2" using ru by simp
  ultimately show ?thesis using x by (simp add: b64_def r_def u_def)
qed

lemma b64_underflow:
  assumes "0 \<le> x" "x \<le> 2 powr (- 1075)"
  shows "b64 x = 0"
proof (cases "x = 0")
  case True
  then show ?thesis by (simp add: b64_def)
next
  case False
  then have x: "0 < x" using assms by simp
  have "(2::real) powr (- 1075) < 2 powr (- 1022)" by simp
  then have "x < 2 powr (- 1022)" using assms by linarith
  then have u: "b64_ulp x = 2 powr (- 1074)" using x by (intro b64_ulp_subnormal)
  have "(2::real) powr (- 1075) = 2 powr (- 1074) / 2"
    by (simp add: powr_diff [of 2 "- 1074" 1, simplified])
  then have "x / b64_ulp x \<le> 1 / 2" using assms unfolding u by (simp add: field_simps)
  then have "rne (x / b64_ulp x) = 0" using x b64_ulp_pos [of x] by (intro rne_zero) simp_all
  then show ?thesis by (simp add: b64_def)
qed

text \<open>The rounding at a few numbers: one, the literal \<^verbatim>\<open>0.1\<close>, and two ties.\<close>

lemma b64_exp_eq:
  assumes "2 powr of_int k \<le> \<bar>x\<bar>" "\<bar>x\<bar> < 2 powr (of_int k + 1)" "- 1022 \<le> k"
  shows "b64_exp x = k"
proof -
  have "(0::real) < 2 powr of_int k" by simp
  then have x: "0 < \<bar>x\<bar>" using assms(1) by linarith
  have "\<lfloor>log 2 \<bar>x\<bar>\<rfloor> = k"
    using assms(1,2) x by (subst floor_log_eq_powr_iff) simp_all
  then show ?thesis using assms(3) by (simp add: b64_exp_def)
qed

lemma b64_one: "b64 1 = 1"
proof -
  have e: "b64_exp 1 = 0" by (rule b64_exp_eq) simp_all
  have u: "b64_ulp 1 = 1 / 2 ^ 52" by (simp add: b64_ulp_def e powr_minus_divide)
  show ?thesis by (simp add: b64_def u rne_def)
qed

lemma b64_tenth: "b64 (1 / 10) = 3602879701896397 / 36028797018963968"
proof -
  have e: "b64_exp (1 / 10) = - 4"
    by (rule b64_exp_eq) (simp_all add: powr_minus_divide)
  have u: "b64_ulp (1 / 10) = 1 / 2 ^ 56" by (simp add: b64_ulp_def e powr_minus_divide)
  show ?thesis by (simp add: b64_def u rne_def Let_def)
qed

lemma b64_tie_to_even_down: "b64 (1 + 1 / 2 ^ 53) = 1"
proof -
  define x :: real where "x = 1 + 1 / 2 ^ 53"
  have e: "b64_exp x = 0" by (rule b64_exp_eq) (simp_all add: x_def)
  have u: "b64_ulp x = 1 / 2 ^ 52" by (simp add: b64_ulp_def e powr_minus_divide)
  have f: "\<lfloor>x / (1 / 2 ^ 52)\<rfloor> = 2 ^ 52" by (simp add: x_def floor_eq_iff)
  have "x \<noteq> 0" by (simp add: x_def)
  then have "b64 x = 1" unfolding b64_def u rne_def Let_def f by (simp add: x_def)
  then show ?thesis by (simp only: x_def)
qed

lemma b64_tie_to_even_up: "b64 (1 + 3 / 2 ^ 53) = 1 + 1 / 2 ^ 51"
proof -
  define x :: real where "x = 1 + 3 / 2 ^ 53"
  have e: "b64_exp x = 0" by (rule b64_exp_eq) (simp_all add: x_def)
  have u: "b64_ulp x = 1 / 2 ^ 52" by (simp add: b64_ulp_def e powr_minus_divide)
  have f: "\<lfloor>x / (1 / 2 ^ 52)\<rfloor> = 2 ^ 52 + 1" by (simp add: x_def floor_eq_iff)
  have "x \<noteq> 0" by (simp add: x_def)
  then have "b64 x = 1 + 1 / 2 ^ 51" unfolding b64_def u rne_def Let_def f by (simp add: x_def)
  then show ?thesis by (simp only: x_def)
qed

subsection \<open>Powers of ten and the range of the format\<close>

lemma p10_pos: "0 < p10 k"
  by (simp add: p10_def)

lemma p10_add: "p10 (k + j) = p10 k * p10 j"
  by (simp add: p10_def power_int_add)

lemma p10_diff: "p10 (k - j) = p10 k / p10 j"
  by (simp add: p10_def power_int_diff)

lemma p10_mono: "k \<le> j \<Longrightarrow> p10 k \<le> p10 j"
  by (simp add: p10_def power_int_increasing)

lemma p10_0: "p10 0 = 1"
  by (simp add: p10_def)

lemma p10_1: "p10 1 = 10"
  by (simp add: p10_def)

lemma p10_pred: "p10 (k - 1) = p10 k / 10"
  by (simp add: p10_diff p10_1)

lemma p10_succ: "p10 (k + 1) = 10 * p10 k"
  by (simp add: p10_add p10_1)

lemma p10_neg: "p10 (- k) = 1 / p10 k"
  by (simp add: p10_def power_int_minus_divide)

lemma tiny_less: "(2::real) powr (- 1075) < p10 (- 323)"
proof -
  have "(2::real) powr (- 1075) = 1 / 2 ^ 1075" by (simp add: powr_minus_divide)
  also have "\<dots> < 1 / 10 ^ 323" by simp
  also have "\<dots> = p10 (- 323)" by (simp add: p10_def power_int_minus_divide)
  finally show ?thesis .
qed

lemma tiny_greater: "p10 (- 324) \<le> (2::real) powr (- 1075)"
proof -
  have "p10 (- 324) = 1 / 10 ^ 324" by (simp add: p10_def power_int_minus_divide)
  also have "\<dots> \<le> 1 / 2 ^ 1075" by simp
  also have "\<dots> = 2 powr (- 1075)" by (simp add: powr_minus_divide)
  finally show ?thesis .
qed

lemma huge_greater: "p10 308 < b64_overflow"
  by (simp add: b64_overflow_def p10_def)

lemma b64_decade_bounds:
  assumes "p10 k \<le> x" "x \<le> p10 j" "- 322 \<le> k"
  shows "p10 (k - 1) \<le> b64 x" "b64 x \<le> p10 (j + 1)"
proof -
  have "p10 (- 323) \<le> p10 k" using assms(3) by (intro p10_mono) simp
  then have t: "2 powr (- 1075) < x" using tiny_less assms(1) by linarith
  have x: "0 \<le> x" using p10_pos [of k] assms(1) by linarith
  have k: "0 < p10 k" and j: "0 < p10 j" by (rule p10_pos)+
  from b64_lower [OF t] assms(1) k show "p10 (k - 1) \<le> b64 x" unfolding p10_pred by linarith
  from b64_upper [OF x] assms(2) j show "b64 x \<le> p10 (j + 1)" unfolding p10_succ by linarith
qed

lemma fl_decades:
  assumes "p10 k \<le> x" "x \<le> p10 j" "- 322 \<le> k" "j \<le> 307"
  shows "in_decades (k - 1) (j + 1) (fl x)"
proof -
  note b = b64_decade_bounds [OF assms(1-3)]
  have "0 \<le> b64 x" using b(1) p10_pos [of "k - 1"] by linarith
  moreover have "p10 (j + 1) \<le> p10 308" using assms(4) by (intro p10_mono) simp
  then have "b64 x < b64_overflow" using b(2) huge_greater by linarith
  ultimately have "\<bar>b64 x\<bar> < b64_overflow" by simp
  then show ?thesis using b by (simp add: fl_def in_decades_def)
qed

lemma fl_underflow:
  assumes "0 \<le> x" "x \<le> p10 (- 324)"
  shows "fl x = Num 0"
proof -
  have "x \<le> 2 powr (- 1075)" using assms(2) tiny_greater by linarith
  then have "b64 x = 0" using assms(1) by (intro b64_underflow)
  moreover have "(0::real) < b64_overflow" by (simp add: b64_overflow_def)
  ultimately show ?thesis by (simp add: fl_def)
qed

lemma fl_upper:
  assumes "0 \<le> x" "x \<le> p10 j" "j \<le> 307"
  shows "\<exists>z. fl x = Num z \<and> 0 \<le> z \<and> z \<le> p10 (j + 1)"
proof -
  have b: "0 \<le> b64 x" "b64 x \<le> p10 (j + 1)"
    using b64_nonneg [OF assms(1)] b64_upper [OF assms(1)] assms(2) p10_pos [of j]
    unfolding p10_succ by linarith+
  have "p10 (j + 1) \<le> p10 308" using assms(3) by (intro p10_mono) simp
  then have "b64 x < b64_overflow" using b(2) huge_greater by linarith
  then have "\<bar>b64 x\<bar> < b64_overflow" using b(1) by simp
  then show ?thesis using b by (simp add: fl_def)
qed

lemma mul_decades:
  assumes "in_decades k1 j1 u" "in_decades k2 j2 v" "- 322 \<le> k1 + k2" "j1 + j2 \<le> 307"
  shows "in_decades (k1 + k2 - 1) (j1 + j2 + 1) (fp_mul u v)"
proof -
  from assms(1,2) obtain x y where u: "u = Num x" "p10 k1 \<le> x" "x \<le> p10 j1"
    and v: "v = Num y" "p10 k2 \<le> y" "y \<le> p10 j2"
    by (auto simp: in_decades_def)
  have pos: "0 < p10 k1" "0 < p10 k2" by (rule p10_pos)+
  have "p10 k1 * p10 k2 \<le> x * y" using u v pos by (intro mult_mono) simp_all
  moreover have "x * y \<le> p10 j1 * p10 j2" using u v pos by (intro mult_mono) simp_all
  ultimately have "p10 (k1 + k2) \<le> x * y" "x * y \<le> p10 (j1 + j2)" by (simp_all add: p10_add)
  then show ?thesis
    unfolding u v fp_mul.simps using assms(3,4) by (rule fl_decades)
qed

lemma div_decades:
  assumes "in_decades k1 j1 u" "in_decades k2 j2 v" "- 322 \<le> k1 - j2" "j1 - k2 \<le> 307"
  shows "\<exists>w. py_div_b64 u v = Ok w \<and> in_decades (k1 - j2 - 1) (j1 - k2 + 1) w"
proof -
  from assms(1,2) obtain x y where u: "u = Num x" "p10 k1 \<le> x" "x \<le> p10 j1"
    and v: "v = Num y" "p10 k2 \<le> y" "y \<le> p10 j2"
    by (auto simp: in_decades_def)
  have pos: "0 < p10 k1" "0 < p10 k2" by (rule p10_pos)+
  have y: "0 < y" using v pos by linarith
  have "p10 k1 / p10 j2 \<le> x / y" using u v pos y by (intro frac_le) simp_all
  moreover have "x / y \<le> p10 j1 / p10 k2" using u v pos y by (intro frac_le) simp_all
  ultimately have "p10 (k1 - j2) \<le> x / y" "x / y \<le> p10 (j1 - k2)" by (simp_all add: p10_diff)
  then have "in_decades (k1 - j2 - 1) (j1 - k2 + 1) (fl (x / y))"
    using assms(3,4) by (rule fl_decades)
  then show ?thesis using y by (simp add: py_div_b64_def u v)
qed

subsection \<open>Divisions, powers and the constants\<close>

lemma bind_outcome_Ok: "bind_outcome (Ok x) f = f x"
  by (simp add: bind_outcome_def)

lemma in_decades_Num: "p10 k \<le> x \<Longrightarrow> x \<le> p10 j \<Longrightarrow> in_decades k j (Num x)"
  by (simp add: in_decades_def)

lemma in_decades_mono:
  assumes "in_decades k j v" "k' \<le> k" "j \<le> j'"
  shows "in_decades k' j' v"
proof -
  from assms(1) obtain z where z: "v = Num z" "p10 k \<le> z" "z \<le> p10 j"
    by (auto simp: in_decades_def)
  have "p10 k' \<le> z" "z \<le> p10 j'"
    using z p10_mono [OF assms(2)] p10_mono [OF assms(3)] by linarith+
  then show ?thesis using z(1) by (simp add: in_decades_def)
qed

lemma in_decades_pos: "in_decades k j v \<Longrightarrow> \<exists>z. v = Num z \<and> 0 < z"
  using p10_pos [of k] by (auto simp: in_decades_def)

lemma in_decades_nonzero: "in_decades k j v \<Longrightarrow> v \<noteq> Num 0"
  using p10_pos [of k] by (auto simp: in_decades_def)

lemma div_ok: "in_decades k j v \<Longrightarrow> \<exists>w. py_div_b64 u v = Ok w"
  using in_decades_nonzero [of k j v] by (simp add: py_div_b64_def)

lemma div_Num_ok: "y \<noteq> 0 \<Longrightarrow> \<exists>w. py_div_b64 u (Num y) = Ok w"
  by (simp add: py_div_b64_def)

lemma pow_decades:
  assumes pw: "pow_within_factor_two pw"
    and x: "0 < x" and w: "w \<noteq> 0"
    and b: "p10 k \<le> x powr w" "x powr w \<le> p10 j"
    and r: "- 300 \<le> k" "j \<le> 300"
  shows "\<exists>p. py_pow_b64 pw (Num x) w = Ok p \<and> in_decades (k - 1) (j + 1) p"
proof (cases "x = 1")
  case True
  have "p10 k \<le> 1" "1 \<le> p10 j" using b True by simp_all
  then have "p10 (k - 1) \<le> 1" "1 \<le> p10 (j + 1)"
    using p10_mono [of "k - 1" k] p10_mono [of j "j + 1"] by linarith+
  then show ?thesis using True w by (simp add: py_pow_b64_def in_decades_def)
next
  case False
  have "p10 (- 300) \<le> p10 k" "p10 j \<le> p10 300" using r by (simp_all add: p10_mono)
  then have "p10 (- 300) \<le> x powr w" "x powr w \<le> p10 300" using b by linarith+
  with pw x obtain z where z: "pw x w = Num z" "x powr w / 2 \<le> z" "z \<le> 2 * x powr w"
    unfolding pow_within_factor_two_def by blast
  have "p10 (k - 1) \<le> z" "z \<le> p10 (j + 1)"
    using z b p10_pos [of k] p10_pos [of j] unfolding p10_pred p10_succ by linarith+
  then show ?thesis using False x w z(1) by (simp add: py_pow_b64_def in_decades_def)
qed

lemma powr_unit_interval:
  assumes "0 < t" "t \<le> 1" "0 < lo" "lo \<le> 1" "1 \<le> hi" "lo \<le> x" "x \<le> hi"
  shows "lo \<le> (x::real) powr t" "x powr t \<le> hi"
proof -
  have x: "0 < x" using assms by linarith
  show "lo \<le> x powr t"
  proof (cases "1 \<le> x")
    case True
    then have "1 \<le> x powr t" using assms(1) by (simp add: ge_one_powr_ge_zero)
    then show ?thesis using assms(4) by linarith
  next
    case False
    then have "x powr 1 \<le> x powr t" using x assms(2) by (intro powr_mono') simp_all
    then show ?thesis using x assms(6) by simp
  qed
  show "x powr t \<le> hi"
  proof (cases "1 \<le> x")
    case True
    then have "x powr t \<le> x powr 1" using assms(2) by (intro powr_mono) simp_all
    then show ?thesis using x assms(7) by simp
  next
    case False
    then have "x powr t \<le> 1" using x assms(1) by (intro powr_le1) simp_all
    then show ?thesis using assms(5) by linarith
  qed
qed

lemma third_b64_bounds: "0 < third_b64" "third_b64 \<le> 1"
proof -
  have "p10 (- 323) \<le> p10 (- 1)" by (intro p10_mono) simp
  moreover have "p10 (- 1) \<le> 1 / 3" by (simp add: p10_def)
  ultimately have "2 powr (- 1075) < (1 / 3 :: real)" using tiny_less by linarith
  from b64_lower [OF this] show "0 < third_b64" by (simp add: third_b64_def)
  have "b64 (1 / 3) \<le> 2 * (1 / 3)" by (rule b64_upper) simp
  then show "third_b64 \<le> 1" by (simp add: third_b64_def)
qed

lemma pow_third_decades:
  assumes pw: "pow_within_factor_two pw"
    and q: "in_decades k j q" "k \<le> 0" "0 \<le> j"
    and r: "- 300 \<le> k" "j \<le> 300"
  shows "\<exists>p. py_pow_b64 pw q third_b64 = Ok p \<and> in_decades (k - 1) (j + 1) p"
proof -
  from q(1) obtain x where x: "q = Num x" "p10 k \<le> x" "x \<le> p10 j"
    by (auto simp: in_decades_def)
  have t: "third_b64 \<noteq> 0" using third_b64_bounds by linarith
  have x0: "0 < x" using x p10_pos [of k] by linarith
  have lo: "p10 k \<le> 1" using p10_mono [OF q(2)] by (simp add: p10_0)
  have hi: "1 \<le> p10 j" using p10_mono [OF q(3)] by (simp add: p10_0)
  note b = powr_unit_interval [OF third_b64_bounds p10_pos lo hi x(2,3)]
  show ?thesis unfolding x(1) by (rule pow_decades [OF pw x0 t b r])
qed

lemma pow2_decades:
  assumes pw: "pow_within_factor_two pw"
    and q: "in_decades k j v"
    and r: "- 300 \<le> k + k" "j + j \<le> 300"
  shows "\<exists>p. py_pow_b64 pw v 2 = Ok p \<and> in_decades (k + k - 1) (j + j + 1) p"
proof -
  from q(1) obtain x where x: "v = Num x" "p10 k \<le> x" "x \<le> p10 j"
    by (auto simp: in_decades_def)
  have x0: "0 < x" using x p10_pos [of k] by linarith
  have e: "x powr 2 = x * x" using x0 by (simp add: power2_eq_square)
  have "p10 k * p10 k \<le> x * x" "x * x \<le> p10 j * p10 j"
    using x x0 p10_pos [of k] by (simp_all add: mult_mono)
  then have b: "p10 (k + k) \<le> x powr 2" "x powr 2 \<le> p10 (j + j)"
    unfolding e p10_add by simp_all
  show ?thesis unfolding x(1) by (rule pow_decades [OF pw x0 _ b r]) simp
qed

lemma pow4_decades:
  assumes pw: "pow_within_factor_two pw"
    and q: "in_decades k j v"
    and r: "- 300 \<le> k + k + (k + k)" "j + j + (j + j) \<le> 300"
  shows "\<exists>p. py_pow_b64 pw v 4 = Ok p
           \<and> in_decades (k + k + (k + k) - 1) (j + j + (j + j) + 1) p"
proof -
  from q(1) obtain x where x: "v = Num x" "p10 k \<le> x" "x \<le> p10 j"
    by (auto simp: in_decades_def)
  have x0: "0 < x" using x p10_pos [of k] by linarith
  have e: "x powr 4 = (x * x) * (x * x)" using x0 by (simp add: power4_eq_xxxx)
  have s: "p10 k * p10 k \<le> x * x" "x * x \<le> p10 j * p10 j"
    using x x0 p10_pos [of k] by (simp_all add: mult_mono)
  have "0 < p10 k * p10 k" using p10_pos [of k] by simp
  then have "(p10 k * p10 k) * (p10 k * p10 k) \<le> (x * x) * (x * x)"
    "(x * x) * (x * x) \<le> (p10 j * p10 j) * (p10 j * p10 j)"
    using s x0 by (simp_all add: mult_mono)
  then have b: "p10 (k + k + (k + k)) \<le> x powr 4" "x powr 4 \<le> p10 (j + j + (j + j))"
    unfolding e p10_add by simp_all
  show ?thesis unfolding x(1) by (rule pow_decades [OF pw x0 _ b r]) simp
qed

lemma pow_neg1_decades:
  assumes pw: "pow_within_factor_two pw"
    and q: "in_decades k j v"
    and r: "- 300 \<le> - j" "- k \<le> 300"
  shows "\<exists>p. py_pow_b64 pw v (- 1) = Ok p \<and> in_decades (- j - 1) (- k + 1) p"
proof -
  from q(1) obtain x where x: "v = Num x" "p10 k \<le> x" "x \<le> p10 j"
    by (auto simp: in_decades_def)
  have x0: "0 < x" using x p10_pos [of k] by linarith
  have e: "x powr (- 1) = 1 / x" using x0 by (simp add: powr_minus_divide)
  have b: "p10 (- j) \<le> x powr (- 1)" "x powr (- 1) \<le> p10 (- k)"
    unfolding e p10_neg using x x0 p10_pos [of k] by (simp_all add: frac_le)
  show ?thesis unfolding x(1) by (rule pow_decades [OF pw x0 _ b r]) simp
qed

lemma pow_pos_exponent_no_zde: "0 < w \<Longrightarrow> py_pow_b64 pw v w \<noteq> Raised ZeroDivision_Error"
  by (auto simp: py_pow_b64_def split: fp.splits)

lemma pow_nonzero_no_zde:
  "in_decades k j v \<Longrightarrow> py_pow_b64 pw v w \<noteq> Raised ZeroDivision_Error"
  using p10_pos [of k] by (auto simp: py_pow_b64_def in_decades_def split: fp.splits)

lemma b64_in_decades:
  assumes "p10 k \<le> x" "x \<le> p10 j" "- 322 \<le> k"
  shows "in_decades (k - 1) (j + 1) (Num (b64 x))"
  using b64_decade_bounds [OF assms] by (simp add: in_decades_def)

lemma G_b64_decades: "in_decades (- 9) (- 6) (Num G_b64)"
proof -
  have "p10 (- 8) \<le> G" "G \<le> p10 (- 7)" by (simp_all add: p10_def G_def)
  from b64_in_decades [OF this] show ?thesis by (simp add: G_b64_def)
qed

lemma c_b64_decades: "in_decades 9 12 (Num c_b64)"
proof -
  have "p10 10 \<le> c" "c \<le> p10 11" by (simp_all add: p10_def c_def)
  from b64_in_decades [OF this] show ?thesis by (simp add: c_b64_def)
qed

lemma pi_b64_decades: "in_decades (- 1) 2 (Num pi_b64)"
proof -
  have "p10 0 \<le> pi" "pi \<le> p10 1" using pi_ge_two pi_less_4 by (simp_all add: p10_def)
  from b64_in_decades [OF this] show ?thesis by (simp add: pi_b64_def)
qed

lemma e40_decades: "in_decades 39 41 (fl (10 ^ 40))"
proof -
  have "p10 40 \<le> 10 ^ 40" "(10::real) ^ 40 \<le> p10 40" by (simp_all add: p10_def)
  from fl_decades [OF this] show ?thesis by simp
qed

lemma small_Num_decades: "1 \<le> x \<Longrightarrow> x \<le> 10 \<Longrightarrow> in_decades 0 1 (Num x)"
  by (simp add: in_decades_def p10_def)

subsection \<open>The default parameters as floats\<close>

lemma M_star_b64_decades: "in_decades 32 35 (Num M_star_b64)"
proof -
  have "p10 33 \<le> Msun" "Msun \<le> p10 34" by (simp_all add: p10_def Msun_def)
  from b64_in_decades [OF this] show ?thesis by (simp add: M_star_b64_def Msun_b64_def)
qed

lemma R_star_b64_decades: "in_decades 9 12 (Num R_star_b64)"
proof -
  have "p10 10 \<le> Rsun" "Rsun \<le> p10 11" by (simp_all add: p10_def Rsun_def)
  from b64_in_decades [OF this] show ?thesis by (simp add: R_star_b64_def Rsun_b64_def)
qed

lemma epsilon_b64_decades: "in_decades (- 3) 0 (Num epsilon_b64)"
proof -
  have "p10 (- 2) \<le> epsilon" "epsilon \<le> p10 (- 1)" by (simp_all add: p10_def epsilon_def)
  from b64_in_decades [OF this] show ?thesis by (simp add: epsilon_b64_def)
qed

lemma D_b64_decades: "in_decades 25 28 (Num D_b64)"
proof -
  have "p10 26 \<le> D" "D \<le> p10 27" by (simp_all add: p10_def D_def)
  from b64_in_decades [OF this] show ?thesis by (simp add: D_b64_def)
qed

lemma product_decades:
  assumes "in_decades k1 j1 (Num x)" "in_decades k2 j2 (Num y)" "- 322 \<le> k1 + k2"
  shows "in_decades (k1 + k2 - 1) (j1 + j2 + 1) (Num (b64 (x * y)))"
proof -
  from assms(1,2) have x: "p10 k1 \<le> x" "x \<le> p10 j1" and y: "p10 k2 \<le> y" "y \<le> p10 j2"
    by (auto simp: in_decades_def)
  have pos: "0 < p10 k1" "0 < p10 k2" by (rule p10_pos)+
  have "p10 k1 * p10 k2 \<le> x * y" using x y pos by (intro mult_mono) simp_all
  moreover have "x * y \<le> p10 j1 * p10 j2" using x y pos by (intro mult_mono) simp_all
  ultimately have "p10 (k1 + k2) \<le> x * y" "x * y \<le> p10 (j1 + j2)" by (simp_all add: p10_add)
  then show ?thesis using assms(3) by (rule b64_in_decades)
qed

lemma deltaM_b64_decades: "in_decades 27 34 (Num deltaM_b64)"
proof -
  have "p10 (- 3) \<le> 1 / 1000" "(1 / 1000 :: real) \<le> p10 (- 3)" by (simp_all add: p10_def)
  from b64_in_decades [OF this] have a: "in_decades (- 4) (- 2) (Num (b64 (1 / 1000)))" by simp
  have b: "in_decades 32 35 (Num Msun_b64)" using M_star_b64_decades by (simp add: M_star_b64_def)
  from product_decades [OF a b] show ?thesis by (simp add: deltaM_b64_def)
qed

lemma v_ej_b64_decades: "in_decades 6 13 (Num v_ej_b64)"
proof -
  have "p10 (- 1) \<le> 1 / 10" "(1 / 10 :: real) \<le> p10 (- 1)" by (simp_all add: p10_def)
  from b64_in_decades [OF this] have a: "in_decades (- 2) 0 (Num (b64 (1 / 10)))" by simp
  from product_decades [OF a c_b64_decades] show ?thesis by (simp add: v_ej_b64_def)
qed

lemma fl_zero: "fl 0 = Num 0"
  by (simp add: fl_def b64_def b64_overflow_def)

lemma two_decades: "in_decades 0 1 (Num 2)"
  by (rule small_Num_decades) simp_all

lemma three_decades: "in_decades 0 1 (Num 3)"
  by (rule small_Num_decades) simp_all

lemma eight_decades: "in_decades 0 1 (Num 8)"
  by (rule small_Num_decades) simp_all

lemma twoG_decades: "in_decades (- 10) (- 4) (fp_mul (Num 2) (Num G_b64))"
  using mul_decades [OF two_decades G_b64_decades] by simp

lemma threepi_decades: "in_decades (- 2) 4 (fp_mul (Num 3) (Num pi_b64))"
  using mul_decades [OF three_decades pi_b64_decades] by simp

lemma c2_decades:
  assumes "pow_within_factor_two pw"
  shows "\<exists>p. py_pow_b64 pw (Num c_b64) 2 = Ok p \<and> in_decades 17 25 p"
  using pow2_decades [OF assms c_b64_decades] by simp

lemma c4_decades:
  assumes "pow_within_factor_two pw"
  shows "\<exists>p. py_pow_b64 pw (Num c_b64) 4 = Ok p \<and> in_decades 35 49 p"
  using pow4_decades [OF assms c_b64_decades] by simp

subsection \<open>The strain model in binary64 arithmetic\<close>

lemma no_zero_division_in_box:
  assumes pw: "pow_within_factor_two pw"
    and m: "in_decades (- 38) 38 (Num m)"
    and ms: "in_decades (- 38) 38 (Num ms)"
    and rs: "in_decades (- 38) 38 (Num rs)"
    and d: "d \<noteq> 0"
  shows "KMR_strain_b64 pw m ms rs dm e d v \<noteq> Raised ZeroDivision_Error"
proof -
  obtain q where q: "py_div_b64 (Num m) (Num ms) = Ok q" "in_decades (- 77) 77 q"
    using div_decades [OF m ms] by auto
  obtain p where p: "py_pow_b64 pw q third_b64 = Ok p" "in_decades (- 78) 78 p"
    using pow_third_decades [OF pw q(2)] by auto
  have Rt: "in_decades (- 117) 117 (fp_mul (Num rs) p)"
    using mul_decades [OF rs p(2)] by simp
  obtain c2 where c2: "py_pow_b64 pw (Num c_b64) 2 = Ok c2" "in_decades 17 25 c2"
    using c2_decades [OF pw] by auto
  have x2: "in_decades (- 49) 35 (fp_mul (fp_mul (Num 2) (Num G_b64)) (Num m))"
    using mul_decades [OF twoG_decades m] by simp
  obtain Rg where Rg: "py_div_b64 (fp_mul (fp_mul (Num 2) (Num G_b64)) (Num m)) c2 = Ok Rg"
    "in_decades (- 75) 19 Rg"
    using div_decades [OF x2 c2(2)] by auto
  obtain a where a: "py_div_b64 (fp_mul (Num 8) (Num e)) (fp_mul (Num 3) (Num pi_b64)) = Ok a"
    using div_ok [OF threepi_decades] by blast
  have m0: "m \<noteq> 0" using in_decades_nonzero [OF m] by auto
  obtain b where b: "py_div_b64 (Num dm) (Num m) = Ok b"
    using div_Num_ok [OF m0] by blast
  obtain r where r: "py_div_b64 (fp_mul (Num rs) p) Rg = Ok r" "in_decades (- 137) 193 r"
    using div_decades [OF Rt Rg(2)] by auto
  have ri: "py_pow_b64 pw r (- 1) \<noteq> Raised ZeroDivision_Error"
    using r(2) by (rule pow_nonzero_no_zde)
  obtain vc where vc: "py_div_b64 (Num v) (Num c_b64) = Ok vc"
    using div_ok [OF c_b64_decades] by blast
  have v2: "py_pow_b64 pw vc 2 \<noteq> Raised ZeroDivision_Error"
    by (rule pow_pos_exponent_no_zde) simp
  obtain c4 where c4: "py_pow_b64 pw (Num c_b64) 4 = Ok c4" "in_decades 35 49 c4"
    using c4_decades [OF pw] by auto
  obtain g where g: "py_div_b64 (Num G_b64) c4 = Ok g"
    using div_ok [OF c4(2)] by blast
  obtain md where md: "py_div_b64 (Num m) (Num d) = Ok md"
    using div_Num_ok [OF d] by blast
  show ?thesis
    unfolding KMR_strain_b64_def Let_def q(1) p(1) c2(1) Rg(1) a b r(1) vc c4(1) g md
      bind_outcome_Ok
    using ri v2 by (auto simp: bind_outcome_def split: outcome.splits)
qed

lemma default_call_returns:
  assumes pw: "pow_within_factor_two pw"
    and m: "in_decades 19 26 (Num m)"
  shows "\<exists>s. KMR_strain_b64 pw m M_star_b64 R_star_b64 deltaM_b64 epsilon_b64 D_b64 v_ej_b64
               = Ok (Num s) \<and> 0 < s"
proof -
  obtain q where q: "py_div_b64 (Num m) (Num M_star_b64) = Ok q" "in_decades (- 17) (- 5) q"
    using div_decades [OF m M_star_b64_decades] by auto
  have q': "in_decades (- 17) 0 q" using q(2) by (rule in_decades_mono) simp_all
  obtain p where p: "py_pow_b64 pw q third_b64 = Ok p" "in_decades (- 18) 1 p"
    using pow_third_decades [OF pw q'] by auto
  have Rt: "in_decades (- 10) 14 (fp_mul (Num R_star_b64) p)"
    using mul_decades [OF R_star_b64_decades p(2)] by simp
  obtain c2 where c2: "py_pow_b64 pw (Num c_b64) 2 = Ok c2" "in_decades 17 25 c2"
    using c2_decades [OF pw] by auto
  have x2: "in_decades 8 23 (fp_mul (fp_mul (Num 2) (Num G_b64)) (Num m))"
    using mul_decades [OF twoG_decades m] by simp
  obtain Rg where Rg: "py_div_b64 (fp_mul (fp_mul (Num 2) (Num G_b64)) (Num m)) c2 = Ok Rg"
    "in_decades (- 18) 7 Rg"
    using div_decades [OF x2 c2(2)] by auto
  have e8: "in_decades (- 4) 2 (fp_mul (Num 8) (Num epsilon_b64))"
    using mul_decades [OF eight_decades epsilon_b64_decades] by simp
  obtain a where a: "py_div_b64 (fp_mul (Num 8) (Num epsilon_b64)) (fp_mul (Num 3) (Num pi_b64)) = Ok a"
    "in_decades (- 9) 5 a"
    using div_decades [OF e8 threepi_decades] by auto
  have t1: "in_decades 29 47 (fp_mul (fl (10 ^ 40)) a)"
    using mul_decades [OF e40_decades a(2)] by simp
  obtain b where b: "py_div_b64 (Num deltaM_b64) (Num m) = Ok b" "in_decades 0 16 b"
    using div_decades [OF deltaM_b64_decades m] by auto
  have t2: "in_decades 28 64 (fp_mul (fp_mul (fl (10 ^ 40)) a) b)"
    using mul_decades [OF t1 b(2)] by simp
  obtain r where r: "py_div_b64 (fp_mul (Num R_star_b64) p) Rg = Ok r" "in_decades (- 18) 33 r"
    using div_decades [OF Rt Rg(2)] by auto
  obtain ri where ri: "py_pow_b64 pw r (- 1) = Ok ri" "in_decades (- 34) 19 ri"
    using pow_neg1_decades [OF pw r(2)] by auto
  have t3: "in_decades (- 7) 84 (fp_mul (fp_mul (fp_mul (fl (10 ^ 40)) a) b) ri)"
    using mul_decades [OF t2 ri(2)] by simp
  obtain vc where vc: "py_div_b64 (Num v_ej_b64) (Num c_b64) = Ok vc" "in_decades (- 7) 5 vc"
    using div_decades [OF v_ej_b64_decades c_b64_decades] by auto
  obtain v2 where v2: "py_pow_b64 pw vc 2 = Ok v2" "in_decades (- 15) 11 v2"
    using pow2_decades [OF pw vc(2)] by auto
  have t4: "in_decades (- 23) 96 (fp_mul (fp_mul (fp_mul (fp_mul (fl (10 ^ 40)) a) b) ri) v2)"
    using mul_decades [OF t3 v2(2)] by simp
  obtain c4 where c4: "py_pow_b64 pw (Num c_b64) 4 = Ok c4" "in_decades 35 49 c4"
    using c4_decades [OF pw] by auto
  obtain g where g: "py_div_b64 (Num G_b64) c4 = Ok g" "in_decades (- 59) (- 40) g"
    using div_decades [OF G_b64_decades c4(2)] by auto
  have t5: "in_decades (- 83) 57
      (fp_mul (fp_mul (fp_mul (fp_mul (fp_mul (fl (10 ^ 40)) a) b) ri) v2) g)"
    using mul_decades [OF t4 g(2)] by simp
  obtain md where md: "py_div_b64 (Num m) (Num D_b64) = Ok md" "in_decades (- 10) 2 md"
    using div_decades [OF m D_b64_decades] by auto
  have t6: "in_decades (- 94) 60
      (fp_mul (fp_mul (fp_mul (fp_mul (fp_mul (fp_mul (fl (10 ^ 40)) a) b) ri) v2) g) md)"
    using mul_decades [OF t5 md(2)] by simp
  from in_decades_pos [OF t6] obtain s where
    s: "fp_mul (fp_mul (fp_mul (fp_mul (fp_mul (fp_mul (fl (10 ^ 40)) a) b) ri) v2) g) md = Num s"
    "0 < s" by blast
  show ?thesis
    unfolding KMR_strain_b64_def Let_def q(1) p(1) c2(1) Rg(1) a(1) b(1) r(1) ri(1) vc(1) v2(1)
      c4(1) g(1) md(1) bind_outcome_Ok
    using s by simp
qed

lemma zero_mass_raises:
  assumes pw: "pow_within_factor_two pw"
  shows "KMR_strain_b64 pw 0 ms rs dm e d v = Raised ZeroDivision_Error"
proof (cases "ms = 0")
  case True
  then show ?thesis
    by (simp add: KMR_strain_b64_def py_div_b64_def bind_outcome_def)
next
  case False
  have q: "py_div_b64 (Num 0) (Num ms) = Ok (Num 0)"
    using False by (simp add: py_div_b64_def fl_zero)
  have t: "third_b64 \<noteq> 0" "\<not> third_b64 < 0" using third_b64_bounds by linarith+
  have p: "py_pow_b64 pw (Num 0) third_b64 = Ok (Num 0)"
    using t by (simp add: py_pow_b64_def)
  obtain c2 where c2: "py_pow_b64 pw (Num c_b64) 2 = Ok c2" "in_decades 17 25 c2"
    using c2_decades [OF pw] by auto
  obtain Rg where Rg: "py_div_b64 (fp_mul (fp_mul (Num 2) (Num G_b64)) (Num 0)) c2 = Ok Rg"
    using div_ok [OF c2(2)] by blast
  obtain a where a: "py_div_b64 (fp_mul (Num 8) (Num e)) (fp_mul (Num 3) (Num pi_b64)) = Ok a"
    using div_ok [OF threepi_decades] by blast
  have b: "py_div_b64 (Num dm) (Num 0) = Raised ZeroDivision_Error"
    by (simp add: py_div_b64_def)
  show ?thesis
    unfolding KMR_strain_b64_def Let_def q p c2(1) Rg a b bind_outcome_Ok
    by (simp add: bind_outcome_def)
qed

lemma pow_rounded_within_factor_two: "pow_within_factor_two pow_rounded"
  unfolding pow_within_factor_two_def
proof (intro allI impI)
  fix x w :: real
  assume "0 < x" and lo: "p10 (- 300) \<le> x powr w" and hi: "x powr w \<le> p10 300"
  have t: "2 powr (- 1075) < x powr w"
    using tiny_less p10_mono [of "- 323" "- 300"] lo by simp
  have z: "0 \<le> x powr w" by simp
  have b: "x powr w / 2 \<le> b64 (x powr w)" "b64 (x powr w) \<le> 2 * x powr w"
    using b64_lower [OF t] b64_upper [OF z] by simp_all
  have "2 * x powr w \<le> p10 301" using hi p10_succ [of 300] p10_pos [of 300] by simp
  also have "\<dots> \<le> p10 308" by (intro p10_mono) simp
  finally have "b64 (x powr w) < b64_overflow" using b(2) huge_greater by linarith
  moreover have "0 \<le> b64 (x powr w)" using z by (rule b64_nonneg)
  ultimately have "\<bar>b64 (x powr w)\<bar> < b64_overflow" by simp
  then show "\<exists>r. pow_rounded x w = Num r \<and> x powr w / 2 \<le> r \<and> r \<le> 2 * x powr w"
    using b by (simp add: pow_rounded_def fl_def)
qed

lemma p10_numeral_nat: "p10 (int n) = 10 ^ n"
  by (simp add: p10_def)

lemma in_decades_positive: "in_decades k j (Num x) \<Longrightarrow> 0 < x"
  using in_decades_pos [of k j "Num x"] by simp

lemma tiny_mass_decades: "in_decades (- 301) (- 299) (Num (b64 (1 / 10 ^ 300)))"
proof -
  have "p10 (- 300) = 1 / 10 ^ 300" by (simp add: p10_def power_int_minus_divide)
  then have "p10 (- 300) \<le> 1 / 10 ^ 300" "1 / 10 ^ 300 \<le> p10 (- 300)" by simp_all
  from b64_in_decades [OF this] show ?thesis by simp
qed

lemma tiny_mass_raises:
  "KMR_strain_b64 pow_rounded (b64 (1 / 10 ^ 300))
     M_star_b64 R_star_b64 deltaM_b64 epsilon_b64 D_b64 v_ej_b64 = Raised ZeroDivision_Error"
proof -
  define m where "m = b64 (1 / 10 ^ 300)"
  note pw = pow_rounded_within_factor_two
  have m: "in_decades (- 301) (- 299) (Num m)" unfolding m_def by (rule tiny_mass_decades)
  then have mb: "p10 (- 301) \<le> m" "m \<le> p10 (- 299)" by (auto simp: in_decades_def)
  have m0: "0 < m" using m by (rule in_decades_positive)
  from M_star_b64_decades have Mb: "p10 32 \<le> M_star_b64" by (auto simp: in_decades_def)
  have M0: "0 < M_star_b64" using M_star_b64_decades by (rule in_decades_positive)
  have "m / M_star_b64 \<le> p10 (- 299) / p10 32"
    using mb Mb m0 p10_pos [of 32] by (intro frac_le) simp_all
  also have "\<dots> = p10 (- 331)" by (simp add: p10_diff [symmetric])
  also have "\<dots> \<le> p10 (- 324)" by (intro p10_mono) simp
  finally have "fl (m / M_star_b64) = Num 0" using m0 M0 by (intro fl_underflow) simp_all
  then have q: "py_div_b64 (Num m) (Num M_star_b64) = Ok (Num 0)"
    using M0 by (simp add: py_div_b64_def)
  have t: "third_b64 \<noteq> 0" "\<not> third_b64 < 0" using third_b64_bounds by linarith+
  have p: "py_pow_b64 pow_rounded (Num 0) third_b64 = Ok (Num 0)"
    using t by (simp add: py_pow_b64_def)
  have Rt: "fp_mul (Num R_star_b64) (Num 0) = Num 0" by (simp add: fl_zero)
  obtain c2 where c2: "py_pow_b64 pow_rounded (Num c_b64) 2 = Ok c2" "in_decades 17 25 c2"
    using c2_decades [OF pw] by auto
  have x2: "in_decades (- 312) (- 302) (fp_mul (fp_mul (Num 2) (Num G_b64)) (Num m))"
    using mul_decades [OF twoG_decades m] by simp
  from x2 obtain z where z: "fp_mul (fp_mul (Num 2) (Num G_b64)) (Num m) = Num z" "0 < z"
    "z \<le> p10 (- 302)" using p10_pos [of "- 312"] by (auto simp: in_decades_def)
  from c2(2) obtain cz where cz: "c2 = Num cz" "p10 17 \<le> cz" by (auto simp: in_decades_def)
  have cz0: "0 < cz" using cz(2) p10_pos [of 17] by linarith
  have "z / cz \<le> p10 (- 302) / p10 17"
    using z cz cz0 p10_pos [of 17] by (intro frac_le) simp_all
  also have "\<dots> = p10 (- 319)" by (simp add: p10_diff [symmetric])
  finally have "\<exists>y. fl (z / cz) = Num y \<and> 0 \<le> y \<and> y \<le> p10 (- 319 + 1)"
    using z(2) cz0 by (intro fl_upper) simp_all
  then obtain y where y: "fl (z / cz) = Num y" "0 \<le> y" by blast
  have Rg: "py_div_b64 (fp_mul (fp_mul (Num 2) (Num G_b64)) (Num m)) c2 = Ok (Num y)"
    unfolding z(1) cz(1) using cz0 y(1) by (simp add: py_div_b64_def)
  obtain a where a:
    "py_div_b64 (fp_mul (Num 8) (Num epsilon_b64)) (fp_mul (Num 3) (Num pi_b64)) = Ok a"
    using div_ok [OF threepi_decades] by blast
  obtain b where b: "py_div_b64 (Num deltaM_b64) (Num m) = Ok b"
    using m0 div_Num_ok [of m] by auto
  have tail: "bind_outcome (py_div_b64 (Num 0) (Num y)) (\<lambda>r.
                bind_outcome (py_pow_b64 pow_rounded r (- 1)) f) = Raised ZeroDivision_Error" for f
  proof (cases "y = 0")
    case True
    then show ?thesis by (simp add: py_div_b64_def bind_outcome_def)
  next
    case False
    then have "py_div_b64 (Num 0) (Num y) = Ok (Num 0)" by (simp add: py_div_b64_def fl_zero)
    then show ?thesis by (simp add: bind_outcome_def py_pow_b64_def)
  qed
  show ?thesis
    unfolding m_def [symmetric] KMR_strain_b64_def Let_def q p c2(1) Rg a b Rt bind_outcome_Ok
    by (rule tail)
qed

lemma linspace_range:
  assumes "a \<le> b" "y \<in> set (linspace a b n)"
  shows "a \<le> y \<and> y \<le> b"
proof -
  from assms(2) obtain i where i: "i < n" "y = linspace a b n ! i"
    by (auto simp: in_set_conv_nth length_linspace)
  show ?thesis
  proof (cases "n = 1 \<or> i = n - 1")
    case True
    then show ?thesis using i assms(1) by (auto simp: linspace_nth)
  next
    case False
    then have n: "0 < real (n - 1)" "real i \<le> real (n - 1)" using i by simp_all
    have y: "y = a + real i * ((b - a) / real (n - 1))"
      using False i by (simp add: linspace_nth)
    have d: "0 \<le> (b - a) / real (n - 1)" using assms(1) n(1) by simp
    have "real i * ((b - a) / real (n - 1)) \<le> real (n - 1) * ((b - a) / real (n - 1))"
      using n(2) d by (rule mult_right_mono)
    also have "\<dots> = b - a" using n(1) by simp
    finally have "y \<le> b" using y by simp
    moreover have "0 \<le> real i * ((b - a) / real (n - 1))"
      using d by (intro mult_nonneg_nonneg) simp_all
    then have "a \<le> y" using y by simp
    ultimately show ?thesis by simp
  qed
qed

lemma M_pbh_range: "x \<in> set M_pbh \<Longrightarrow> 10 ^ 20 \<le> x \<and> x \<le> 10 ^ 25"
proof -
  assume "x \<in> set M_pbh"
  then obtain y where y: "y \<in> set (linspace 20 25 200)" "x = 10 powr y"
    by (auto simp: M_pbh_def logspace_def)
  from linspace_range [OF _ y(1)] have r: "20 \<le> y" "y \<le> 25" by simp_all
  have "(10::real) powr 20 \<le> 10 powr y" using r(1) by (rule powr_mono) simp
  moreover have "(10::real) powr y \<le> 10 powr 25" using r(2) by (rule powr_mono) simp
  moreover have "(10::real) powr 20 = 10 ^ 20" "(10::real) powr 25 = 10 ^ 25" by simp_all
  ultimately show ?thesis unfolding y(2) by (simp only:)
qed

lemma decades_of_bounds:
  assumes "1 / 10 ^ 38 \<le> x" "x \<le> 10 ^ 38"
  shows "in_decades (- 38) 38 (Num x)"
proof -
  have "p10 (- 38) = 1 / 10 ^ 38" "p10 38 = 10 ^ 38"
    by (simp_all add: p10_def power_int_minus_divide)
  then show ?thesis using assms by (simp add: in_decades_def)
qed

lemma grid_decades_of_bounds:
  assumes "10 ^ 19 \<le> x" "x \<le> 10 ^ 26"
  shows "in_decades 19 26 (Num x)"
proof -
  have "p10 19 = 10 ^ 19" "p10 26 = 10 ^ 26" by (simp_all add: p10_def)
  then show ?thesis using assms by (simp add: in_decades_def)
qed

lemma bounds_of_decades:
  assumes "in_decades k j (Num x)" "- 38 \<le> k" "j \<le> 38"
  shows "1 / 10 ^ 38 \<le> x" "x \<le> 10 ^ 38"
proof -
  have e: "p10 (- 38) = 1 / 10 ^ 38" "p10 38 = 10 ^ 38"
    by (simp_all add: p10_def power_int_minus_divide)
  from assms(1) have "p10 k \<le> x" "x \<le> p10 j" by (auto simp: in_decades_def)
  then have "p10 (- 38) \<le> x" "x \<le> p10 38"
    using p10_mono [OF assms(2)] p10_mono [OF assms(3)] by linarith+
  then show "1 / 10 ^ 38 \<le> x" "x \<le> 10 ^ 38" by (simp_all only: e)
qed

section \<open>The claims\<close>






text \<open>
  C3. The default grid has exactly 200 elements, the \<open>i\<close>-th being \<open>10\<close> raised to the
  evenly spaced exponent \<open>20 + i * (5 / 199)\<close>; its first element is \<open>10 ^ 20\<close>, its last is
  \<open>10 ^ 25\<close>, and it is strictly increasing. The grid is a function of the bounds and the
  count alone, so the same bounds and count give the same grid.
\<close>

theorem mass_grid_default:
  "length M_pbh = 200
   \<and> M_pbh = map (\<lambda>i. 10 powr (20 + real i * (5 / 199))) [0..<200]
   \<and> hd M_pbh = 10 ^ 20
   \<and> last M_pbh = 10 ^ 25
   \<and> sorted_wrt (<) M_pbh
   \<and> M_pbh = logspace 20 25 200"
proof -
  have "(20::real) + 199 * (5 / 199) = 25" by simp
  then have spaced: "M_pbh = map (\<lambda>i. 10 powr (20 + real i * (5 / 199))) [0..<200]"
    by (auto simp: M_pbh_def logspace_def linspace_def)
  have first: "hd M_pbh = 10 ^ 20"
    unfolding M_pbh_def by (subst logspace_hd) simp_all
  have final: "last M_pbh = 10 ^ 25"
    unfolding M_pbh_def by (subst logspace_last) simp_all
  show ?thesis
    using M_pbh_length spaced first final M_pbh_strict by (simp add: M_pbh_def)
qed

text \<open>
  C4. The sweep succeeds, its strain sequence has the length of the mass grid, and the
  strain at every index is \<open>KMR_strain\<close> at the grid mass of the same index with the fixed
  parameters.
\<close>

theorem strains_index_aligned:
  "\<exists>ss. strains = Inr ss \<and> length ss = length M_pbh
     \<and> (\<forall>i<length M_pbh. KMR_strain (M_pbh ! i) M_star R_star deltaM epsilon D v_ej = Inr (ss ! i))"
proof -
  obtain ss where ss: "strains = Inr ss" using strains_eq by simp
  then have "comprehension (\<lambda>m. KMR_strain m M_star R_star deltaM epsilon D v_ej) M_pbh = Inr ss"
    by (simp add: strains_def)
  from comprehension_nth [OF this] ss show ?thesis by blast
qed

theorem strains_index_aligned_witness:
  "(199::nat) < length M_pbh
   \<and> (\<exists>ss. strains = Inr ss \<and> length ss = length M_pbh
        \<and> KMR_strain (M_pbh ! 199) M_star R_star deltaM epsilon D v_ej = Inr (ss ! 199))"
proof -
  have n: "(199::nat) < length M_pbh" by (simp add: M_pbh_length)
  from strains_index_aligned obtain ss where "strains = Inr ss" "length ss = length M_pbh"
    "\<forall>i<length M_pbh. KMR_strain (M_pbh ! i) M_star R_star deltaM epsilon D v_ej = Inr (ss ! i)"
    by blast
  then show ?thesis using n by blast
qed



text \<open>
  C6, as amended. In binary64 arithmetic, with any \<^verbatim>\<open>pow\<close> that is within a factor two
  of the exact power: when the black-hole mass, the stellar mass and the stellar radius
  lie between \<open>10\<close> to the \<open>-38\<close> and \<open>10\<close> to the \<open>38\<close> and the distance is not zero, no
  division of \<open>KMR_strain\<close> has a zero denominator, so the call does not raise
  \<^verbatim>\<open>ZeroDivisionError\<close>; a mass of zero raises it; with the default parameters and a mass
  between \<open>10\<close> to the \<open>19\<close> and \<open>10\<close> to the \<open>26\<close> g the call returns a finite positive
  strain; and the grid masses lie between \<open>10\<close> to the \<open>20\<close> and \<open>10\<close> to the \<open>25\<close> g, so
  the sweep does not reach the error.
\<close>

theorem no_division_by_zero_binary64:
  assumes "pow_within_factor_two pw"
    and "1 / 10 ^ 38 \<le> m" "m \<le> 10 ^ 38"
    and "1 / 10 ^ 38 \<le> ms" "ms \<le> 10 ^ 38"
    and "1 / 10 ^ 38 \<le> rs" "rs \<le> 10 ^ 38"
    and "d \<noteq> 0"
    and "10 ^ 19 \<le> mg" "mg \<le> 10 ^ 26"
  shows "KMR_strain_b64 pw m ms rs dm e d v \<noteq> Raised ZeroDivision_Error
     \<and> KMR_strain_b64 pw 0 ms rs dm e d v = Raised ZeroDivision_Error
     \<and> (\<exists>s. KMR_strain_b64 pw mg M_star_b64 R_star_b64 deltaM_b64 epsilon_b64 D_b64 v_ej_b64
               = Ok (Num s) \<and> 0 < s)
     \<and> list_all (\<lambda>x. 10 ^ 20 \<le> x \<and> x \<le> 10 ^ 25) M_pbh"
proof -
  have box: "KMR_strain_b64 pw m ms rs dm e d v \<noteq> Raised ZeroDivision_Error"
    using assms(1) decades_of_bounds [OF assms(2,3)] decades_of_bounds [OF assms(4,5)]
      decades_of_bounds [OF assms(6,7)] assms(8)
    by (rule no_zero_division_in_box)
  have zero: "KMR_strain_b64 pw 0 ms rs dm e d v = Raised ZeroDivision_Error"
    using assms(1) by (rule zero_mass_raises)
  have grid: "\<exists>s. KMR_strain_b64 pw mg M_star_b64 R_star_b64 deltaM_b64 epsilon_b64 D_b64 v_ej_b64
               = Ok (Num s) \<and> 0 < s"
    using assms(1) grid_decades_of_bounds [OF assms(9,10)] by (rule default_call_returns)
  have range: "list_all (\<lambda>x. 10 ^ 20 \<le> x \<and> x \<le> 10 ^ 25) M_pbh"
    unfolding list_all_iff using M_pbh_range by blast
  show ?thesis using box zero grid range by blast
qed

theorem no_division_by_zero_binary64_witness:
  "pow_within_factor_two pow_rounded
   \<and> 1 / 10 ^ 38 \<le> (10 ^ 22 :: real) \<and> (10 ^ 22 :: real) \<le> 10 ^ 38
   \<and> 1 / 10 ^ 38 \<le> M_star_b64 \<and> M_star_b64 \<le> 10 ^ 38
   \<and> 1 / 10 ^ 38 \<le> R_star_b64 \<and> R_star_b64 \<le> 10 ^ 38
   \<and> D_b64 \<noteq> 0
   \<and> (10 ^ 19 :: real) \<le> 10 ^ 22 \<and> (10 ^ 22 :: real) \<le> 10 ^ 26
   \<and> KMR_strain_b64 pow_rounded (10 ^ 22) M_star_b64 R_star_b64 deltaM_b64 epsilon_b64 D_b64 v_ej_b64
       \<noteq> Raised ZeroDivision_Error
   \<and> KMR_strain_b64 pow_rounded 0 M_star_b64 R_star_b64 deltaM_b64 epsilon_b64 D_b64 v_ej_b64
       = Raised ZeroDivision_Error
   \<and> (\<exists>s. KMR_strain_b64 pow_rounded (10 ^ 22) M_star_b64 R_star_b64 deltaM_b64 epsilon_b64 D_b64
              v_ej_b64 = Ok (Num s) \<and> 0 < s)"
proof -
  note pw = pow_rounded_within_factor_two
  have m: "1 / 10 ^ 38 \<le> (10 ^ 22 :: real)" "(10 ^ 22 :: real) \<le> 10 ^ 38" by simp_all
  have ms: "1 / 10 ^ 38 \<le> M_star_b64" "M_star_b64 \<le> 10 ^ 38"
    by (rule bounds_of_decades [OF M_star_b64_decades]; simp)+
  have rs: "1 / 10 ^ 38 \<le> R_star_b64" "R_star_b64 \<le> 10 ^ 38"
    by (rule bounds_of_decades [OF R_star_b64_decades]; simp)+
  have d: "D_b64 \<noteq> 0" using in_decades_positive [OF D_b64_decades] by simp
  have g: "(10 ^ 19 :: real) \<le> 10 ^ 22" "(10 ^ 22 :: real) \<le> 10 ^ 26" by simp_all
  from no_division_by_zero_binary64 [OF pw m ms rs d g, of deltaM_b64 epsilon_b64 v_ej_b64]
  show ?thesis using pw m ms rs d g by blast
qed

text \<open>
  C6, as stated, fails: positive inputs are not enough. With the default parameters and
  the positive mass \<^verbatim>\<open>1e-300\<close> the quotient \<^verbatim>\<open>M_pbh / M_star\<close> underflows to zero, the tidal
  radius is zero, and the call raises \<^verbatim>\<open>ZeroDivisionError\<close>.
\<close>

theorem positive_mass_division_by_zero_counterexample:
  "0 < b64 (1 / 10 ^ 300) \<and> 0 < M_star_b64 \<and> 0 < R_star_b64 \<and> 0 < D_b64 \<and> 0 < c_b64
   \<and> KMR_strain_b64 pow_rounded (b64 (1 / 10 ^ 300))
        M_star_b64 R_star_b64 deltaM_b64 epsilon_b64 D_b64 v_ej_b64 = Raised ZeroDivision_Error"
  using in_decades_positive [OF tiny_mass_decades] in_decades_positive [OF M_star_b64_decades]
    in_decades_positive [OF R_star_b64_decades] in_decades_positive [OF D_b64_decades]
    in_decades_positive [OF c_b64_decades] tiny_mass_raises
  by blast

text \<open>
  C7. At the default parameters the sweep succeeds and its strain sequence has a single
  interior maximum or is monotonic.
\<close>

theorem strains_shape:
  "\<exists>ss. strains = Inr ss \<and> (single_interior_maximum ss \<or> monotonic ss)"
proof -
  have "sorted_wrt (\<le>)
          (map (\<lambda>m. strain_coeff M_star R_star deltaM epsilon D v_ej * m powr (2 / 3)) M_pbh)"
    using strains_strict by (rule strict_sorted_imp_sorted)
  then show ?thesis
    by (simp add: strains_eq monotonic_def)
qed



text \<open>
  C9. For positive masses and positive parameters the strain is homogeneous of degree
  \<open>2/3\<close> in the mass, \<open>Strain(k * M) = k powr (2/3) * Strain(M)\<close>, and strictly increasing
  in the mass. Over the default grid the reported minimum is the strain at the first grid
  mass and the reported maximum is the strain at the last grid mass.
\<close>

theorem strain_two_thirds_power_law:
  assumes "0 < m" "0 < k" "0 < ms" "0 < rs" "0 < dm" "0 < e" "0 < d" "0 < v" "m < m'"
  shows "(\<exists>s s'. KMR_strain m ms rs dm e d v = Inr s
            \<and> KMR_strain (k * m) ms rs dm e d v = Inr (k powr (2 / 3) * s)
            \<and> KMR_strain m' ms rs dm e d v = Inr s' \<and> s < s')
     \<and> (\<exists>lo hi. report = Inr (lo, hi)
            \<and> KMR_strain (hd M_pbh) M_star R_star deltaM epsilon D v_ej = Inr lo
            \<and> KMR_strain (last M_pbh) M_star R_star deltaM epsilon D v_ej = Inr hi)"
proof -
  have ok: "0 < m" "0 < ms" "rs \<noteq> 0" "d \<noteq> 0" using assms by simp_all
  have okk: "0 < k * m" "0 < ms" "rs \<noteq> 0" "d \<noteq> 0" using assms by simp_all
  have ok': "0 < m'" "0 < ms" "rs \<noteq> 0" "d \<noteq> 0" using assms by simp_all
  have co: "0 < strain_coeff ms rs dm e d v"
    using assms by (simp add: strain_coeff_pos)
  have sc: "strain_coeff ms rs dm e d v * (k * m) powr (2 / 3)
              = k powr (2 / 3) * (strain_coeff ms rs dm e d v * m powr (2 / 3))"
    using assms by (simp add: powr_mult)
  have inc: "strain_coeff ms rs dm e d v * m powr (2 / 3)
               < strain_coeff ms rs dm e d v * m' powr (2 / 3)"
    using co assms by (simp add: strain_mono)
  have law: "\<exists>s s'. KMR_strain m ms rs dm e d v = Inr s
            \<and> KMR_strain (k * m) ms rs dm e d v = Inr (k powr (2 / 3) * s)
            \<and> KMR_strain m' ms rs dm e d v = Inr s' \<and> s < s'"
    unfolding KMR_strain_coeff [OF ok] KMR_strain_coeff [OF okk] KMR_strain_coeff [OF ok']
    using sc inc by simp
  have h: "0 < hd M_pbh" using M_pbh_nonempty by (simp add: M_pbh_pos)
  have l: "0 < last M_pbh" using M_pbh_nonempty by (simp add: M_pbh_pos)
  have ext: "\<exists>lo hi. report = Inr (lo, hi)
            \<and> KMR_strain (hd M_pbh) M_star R_star deltaM epsilon D v_ej = Inr lo
            \<and> KMR_strain (last M_pbh) M_star R_star deltaM epsilon D v_ej = Inr hi"
    by (simp add: report_eq KMR_strain_coeff h l defaults_ok)
  show ?thesis using law ext by blast
qed

theorem strain_two_thirds_power_law_witness:
  "0 < (10 ^ 20 :: real) \<and> 0 < (8 :: real) \<and> 0 < M_star \<and> 0 < R_star \<and> 0 < deltaM
   \<and> 0 < epsilon \<and> 0 < D \<and> 0 < v_ej \<and> (10 ^ 20 :: real) < 10 ^ 25
   \<and> (\<exists>s s'. KMR_strain (10 ^ 20) M_star R_star deltaM epsilon D v_ej = Inr s
         \<and> KMR_strain (8 * 10 ^ 20) M_star R_star deltaM epsilon D v_ej = Inr (8 powr (2 / 3) * s)
         \<and> KMR_strain (10 ^ 25) M_star R_star deltaM epsilon D v_ej = Inr s' \<and> s < s')"
  using strain_two_thirds_power_law
    [of "10 ^ 20" 8 M_star R_star deltaM epsilon D v_ej "10 ^ 25"] defaults_pos
  by simp

end
